theory Spec2Isabelle
  imports Main "HOL-Library.AList"
begin

section \<open>The zipfile module (src/library/zipfile.py)\<close>

text \<open>
  The module is one function, \<^verbatim>\<open>run_module\<close>, that reads six parameters, talks to
  the operating system (\<^verbatim>\<open>os.chdir\<close>, \<^verbatim>\<open>os.path.exists\<close>,
  \<^verbatim>\<open>os.path.expanduser\<close>, \<^verbatim>\<open>zipfile.ZipFile\<close>) and leaves through
  \<^verbatim>\<open>module.exit_json\<close>, \<^verbatim>\<open>module.fail_json\<close> or an exception nobody catches.
  The embedding passes the operating-system state explicitly and returns the way the
  function left together with the state it left behind.
\<close>

subsection \<open>Python values\<close>

text \<open>
  \<^verbatim>\<open>compress_level\<close> is declared \<^verbatim>\<open>type='str'\<close>; the code nevertheless tests
  \<^verbatim>\<open>isinstance(compress_level, int)\<close>, so the value keeps its dynamic type here.
\<close>

datatype py_value = PyStr string | PyInt int

subsection \<open>Strings and paths (posixpath)\<close>

definition sep :: char where
  "sep = CHR ''/''"

text \<open>\<^verbatim>\<open>p.find('/')\<close>: the first index of the separator, or -1.\<close>

fun find_sep :: "string \<Rightarrow> int" where
  "find_sep [] = - 1"
| "find_sep (c # cs) =
     (if c = sep then 0 else (let r = find_sep cs in if r < 0 then - 1 else r + 1))"

text \<open>\<^verbatim>\<open>p.rfind('/')\<close>: the last index of the separator, or -1.\<close>

fun rfind_sep :: "string \<Rightarrow> int" where
  "rfind_sep [] = - 1"
| "rfind_sep (c # cs) =
     (let r = rfind_sep cs in if 0 \<le> r then r + 1 else if c = sep then 0 else - 1)"

text \<open>\<^verbatim>\<open>p.lstrip('/')\<close> and \<^verbatim>\<open>p.rstrip('/')\<close>.\<close>

definition lstrip_sep :: "string \<Rightarrow> string" where
  "lstrip_sep p = dropWhile (\<lambda>c. c = sep) p"

definition rstrip_sep :: "string \<Rightarrow> string" where
  "rstrip_sep p = rev (dropWhile (\<lambda>c. c = sep) (rev p))"

text \<open>\<^verbatim>\<open>os.path.basename\<close>: \<^verbatim>\<open>i = p.rfind(sep) + 1; return p[i:]\<close>.\<close>

definition basename :: "string \<Rightarrow> string" where
  "basename p = drop (nat (rfind_sep p + 1)) p"

text \<open>\<^verbatim>\<open>p.split('/')\<close>, never empty: the empty string splits into one empty component.\<close>

fun split_sep :: "string \<Rightarrow> string list" where
  "split_sep [] = [[]]"
| "split_sep (c # cs) =
     (if c = sep then [] # split_sep cs
      else (case split_sep cs of [] \<Rightarrow> [[c]] | w # ws \<Rightarrow> (c # w) # ws))"

subsection \<open>The operating system\<close>

text \<open>
  A file holds bytes or, once the module has written it, an archive: the compression
  level and the members in the order they were written, each under the entry name given
  to \<^verbatim>\<open>ZipFile.write\<close> (the normalisation \<^verbatim>\<open>ZipInfo.from_file\<close> applies to that
  name is not modelled) with the content read from the source, \<open>None\<close> for a directory
  (\<^verbatim>\<open>ZipFile.write\<close> stores a directory as one entry without content).
\<close>

datatype content = Bytes string | Archive int "(string \<times> content option) list"

datatype node = Dir | File content

text \<open>
  The state of the process and of the filesystem: the home directory \<^verbatim>\<open>expanduser\<close>
  finds for the invoking user (\<^verbatim>\<open>$HOME\<close>, else the password database; \<open>None\<close> when
  neither knows), the home directories of the users the password database names, the
  working directory and the directory tree. A location is the list of names leading to
  it from the root; there are no symbolic links and no permissions.
\<close>

record os_state =
  user_home :: "string option"
  pw_dir :: "string \<Rightarrow> string option"
  cwd :: "string list"
  fs :: "string list \<Rightarrow> node option"

datatype errno = ENOENT | ENOTDIR | EISDIR

datatype exn = OSError errno string | ZlibError

fun strerror :: "errno \<Rightarrow> string" where
  "strerror ENOENT = ''[Errno 2] No such file or directory''"
| "strerror ENOTDIR = ''[Errno 20] Not a directory''"
| "strerror EISDIR = ''[Errno 21] Is a directory''"

text \<open>\<^verbatim>\<open>str(ex)\<close>; the file name is printed between quotes, without Python's escapes.\<close>

fun str_exn :: "exn \<Rightarrow> string" where
  "str_exn (OSError e p) = strerror e @ '': '' @ [CHR 0x27] @ p @ [CHR 0x27]"
| "str_exn ZlibError = ''Bad compression level''"

text \<open>
  \<^verbatim>\<open>os.path.expanduser\<close> (posixpath): a path that does not start with \<^verbatim>\<open>~\<close> is
  returned as it is; \<^verbatim>\<open>~\<close> alone or before the first separator stands for the invoking
  user's home, \<^verbatim>\<open>~name\<close> for the home of \<^verbatim>\<open>name\<close>; when the home is unknown the path
  is returned unchanged; the home loses its trailing separators, and an empty outcome
  becomes the root.
\<close>

definition expanduser :: "os_state \<Rightarrow> string \<Rightarrow> string" where
  "expanduser s path =
     (case path of
        [] \<Rightarrow> path
      | c # rest \<Rightarrow>
          if c \<noteq> CHR ''~'' then path
          else
            (let i0 = (let r = find_sep rest in if r < 0 then - 1 else r + 1);
                 i = (if i0 < 0 then int (length path) else i0);
                 userhome = (if i = 1 then user_home s
                             else pw_dir s (take (nat i - 1) (drop 1 path)))
             in case userhome of
                  None \<Rightarrow> path
                | Some h \<Rightarrow>
                    (let r = rstrip_sep h @ drop (nat i) path
                     in if r = [] then [sep] else r)))"

text \<open>
  Path lookup: from a directory, follow the components one at a time. An empty
  component and \<^verbatim>\<open>.\<close> stay, \<^verbatim>\<open>..\<close> goes to the parent (the root is its own
  parent), a name must exist in the current directory, and every location that is
  walked through must be a directory.
\<close>

fun walk :: "(string list \<Rightarrow> node option) \<Rightarrow> string list \<Rightarrow> string list \<Rightarrow> errno + string list" where
  "walk t cur [] = Inr cur"
| "walk t cur (c # cs) =
     (if t cur \<noteq> Some Dir then Inl (if t cur = None then ENOENT else ENOTDIR)
      else if c = [] \<or> c = ''.'' then walk t cur cs
      else if c = ''..'' then walk t (butlast cur) cs
      else if t (cur @ [c]) = None then Inl ENOENT
      else walk t (cur @ [c]) cs)"

definition start_dir :: "os_state \<Rightarrow> string \<Rightarrow> string list" where
  "start_dir s p = (case p of [] \<Rightarrow> cwd s | c # _ \<Rightarrow> if c = sep then [] else cwd s)"

definition resolve :: "os_state \<Rightarrow> string \<Rightarrow> errno + string list" where
  "resolve s p = (if p = [] then Inl ENOENT else walk (fs s) (start_dir s p) (split_sep p))"

text \<open>\<^verbatim>\<open>os.path.exists\<close>: true when the lookup succeeds, false on every error.\<close>

definition os_path_exists :: "os_state \<Rightarrow> string \<Rightarrow> bool" where
  "os_path_exists s p = (case resolve s p of Inl e \<Rightarrow> False | Inr l \<Rightarrow> True)"

text \<open>\<^verbatim>\<open>os.chdir\<close>: raises \<^verbatim>\<open>OSError\<close>, or changes the working directory and nothing else.\<close>

definition os_chdir :: "os_state \<Rightarrow> string \<Rightarrow> exn + os_state" where
  "os_chdir s p =
     (case resolve s p of
        Inl e \<Rightarrow> Inl (OSError e p)
      | Inr l \<Rightarrow> if fs s l = Some Dir then Inr (s\<lparr>cwd := l\<rparr>) else Inl (OSError ENOTDIR p))"

text \<open>
  \<^verbatim>\<open>open(filename, 'w+b')\<close>, as \<^verbatim>\<open>ZipFile(filename, mode='w')\<close> calls it: the
  location of the file it creates or truncates. The directory of the file must exist;
  a name that denotes a directory cannot be opened for writing.
\<close>

definition open_w :: "os_state \<Rightarrow> string \<Rightarrow> exn + string list" where
  "open_w s p =
     (if p = [] then Inl (OSError ENOENT p)
      else
        (case walk (fs s) (start_dir s p) (butlast (split_sep p)) of
           Inl e \<Rightarrow> Inl (OSError e p)
         | Inr d \<Rightarrow>
             (let n = last (split_sep p)
              in if fs s d \<noteq> Some Dir
                 then Inl (OSError (if fs s d = None then ENOENT else ENOTDIR) p)
                 else if n = [] \<or> n = ''.'' \<or> n = ''..'' then Inl (OSError EISDIR p)
                 else if fs s (d @ [n]) = Some Dir then Inl (OSError EISDIR p)
                 else Inr (d @ [n]))))"

text \<open>
  What \<^verbatim>\<open>ZipFile.write(path, arcname)\<close> reads from the source: a directory gives an
  entry without content, a file is compressed, and zlib refuses a level outside -1..9.
\<close>

definition read_member :: "os_state \<Rightarrow> int \<Rightarrow> string \<Rightarrow> exn + content option" where
  "read_member s lvl path =
     (case resolve s path of
        Inl e \<Rightarrow> Inl (OSError e path)
      | Inr l \<Rightarrow>
          (case fs s l of
             None \<Rightarrow> Inl (OSError ENOENT path)
           | Some Dir \<Rightarrow> Inr None
           | Some (File c) \<Rightarrow> if lvl < - 1 \<or> 9 < lvl then Inl ZlibError else Inr (Some c)))"

text \<open>
  Lines 199-200, \<^verbatim>\<open>for path, archive_path in archive_paths.items(): zipped_file.write(...)\<close>,
  on the archive open at location \<open>t\<close> with the members \<open>ms\<close> written so far. An
  exception stops the loop; the members written before it stay in the file.
\<close>

fun write_all ::
  "string list \<Rightarrow> int \<Rightarrow> (string \<times> content option) list \<Rightarrow> os_state \<Rightarrow> (string \<times> string) list
     \<Rightarrow> exn option \<times> os_state" where
  "write_all t lvl ms s [] = (None, s)"
| "write_all t lvl ms s ((path, archive_path) # rest) =
     (case read_member s lvl path of
        Inl ex \<Rightarrow> (Some ex, s)
      | Inr m \<Rightarrow>
          write_all t lvl (ms @ [(archive_path, m)])
            (s\<lparr>fs := (fs s)(t \<mapsto> File (Archive lvl (ms @ [(archive_path, m)])))\<rparr>) rest)"

text \<open>Lines 197-200: the \<^verbatim>\<open>with zipfile.ZipFile(...)\<close> block.\<close>

definition zip_create ::
  "os_state \<Rightarrow> string \<Rightarrow> int \<Rightarrow> (string \<times> string) list \<Rightarrow> exn option \<times> os_state" where
  "zip_create s filename lvl aps =
     (case open_w s filename of
        Inl ex \<Rightarrow> (Some ex, s)
      | Inr t \<Rightarrow> write_all t lvl [] (s\<lparr>fs := (fs s)(t \<mapsto> File (Archive lvl []))\<rparr>) aps)"

subsection \<open>The module\<close>

text \<open>
  Lines 126-139: the arguments \<^verbatim>\<open>filename\<close>, \<^verbatim>\<open>chdir\<close> and the elements of
  \<^verbatim>\<open>paths\<close> are declared of type \<^verbatim>\<open>path\<close>, and the \<^verbatim>\<open>AnsibleModule\<close>
  constructor converts every value of that type before \<^verbatim>\<open>module.params\<close> is read on
  line 141: \<^verbatim>\<open>os.path.expanduser(os.path.expandvars(value))\<close>. What
  \<^verbatim>\<open>expandvars\<close> substitutes depends on the environment variables of the process
  only; it is a parameter here.
\<close>

definition check_type_path :: "(string \<Rightarrow> string) \<Rightarrow> os_state \<Rightarrow> string \<Rightarrow> string" where
  "check_type_path expandvars s v = expanduser s (expandvars v)"

text \<open>\<^verbatim>\<open>module.params\<close>, as \<^verbatim>\<open>run_module\<close> reads it on lines 141-147.\<close>

record params =
  paths :: "string list"
  filename :: string
  chdir :: "string option"
  compress_level :: py_value
  flatten :: bool
  force :: bool

text \<open>
  Lines 152-160: the result dictionary is the parameters (\<^verbatim>\<open>filename\<close> and
  \<^verbatim>\<open>chdir\<close> after \<^verbatim>\<open>expanduser\<close>) and \<^verbatim>\<open>changed\<close>.
\<close>

record result = params +
  changed :: bool

text \<open>
  The three ways out: \<^verbatim>\<open>module.exit_json(**result)\<close>,
  \<^verbatim>\<open>module.fail_json(msg=..., **result)\<close>, and an exception that no handler catches, which
  ends the process without any result.
\<close>

datatype outcome = exit_json result | fail_json string result | uncaught exn

text \<open>Lines 108-113.\<close>

definition COMPRESS_MAPPING :: "(string \<times> int) list" where
  "COMPRESS_MAPPING = [(''default'', - 1), (''none'', 0), (''fast'', 1), (''best'', 9)]"

text \<open>\<^verbatim>\<open>COMPRESS_MAPPING[v]\<close> when \<^verbatim>\<open>v in COMPRESS_MAPPING\<close>: an int is never equal to a string key.\<close>

fun mapping_lookup :: "py_value \<Rightarrow> int option" where
  "mapping_lookup (PyStr s) = map_of COMPRESS_MAPPING s"
| "mapping_lookup (PyInt n) = None"

text \<open>
  Lines 190-195; \<open>Inl\<close> is the message given to \<^verbatim>\<open>fail_json\<close>. A value that is
  not a key of the table is told apart by its dynamic type: a string is not an instance
  of \<^verbatim>\<open>int\<close> and fails, with \<^verbatim>\<open>"%s" % v\<close> printing the string itself; an int
  goes through \<^verbatim>\<open>int(v)\<close> unchanged.
\<close>

definition resolve_compress_level :: "py_value \<Rightarrow> string + int" where
  "resolve_compress_level v =
     (case mapping_lookup v of
        Some n \<Rightarrow> Inr n
      | None \<Rightarrow>
          (case v of
             PyStr s \<Rightarrow> Inl (''incorrect value for 'compress_level' option: '' @ s)
           | PyInt n \<Rightarrow> Inr n))"

text \<open>Lines 181-186: the entry name of an expanded path.\<close>

definition archive_name :: "bool \<Rightarrow> string \<Rightarrow> string" where
  "archive_name flat path = (if flat then basename path else lstrip_sep path)"

text \<open>
  Lines 173-186: the loop over \<^verbatim>\<open>paths\<close> that fills the dictionary
  \<^verbatim>\<open>archive_paths\<close>. The dictionary is an association list in insertion order, and
  assigning to a key that is present replaces its value in place, as a Python dict
  does. \<open>Inl\<close> is the message given to \<^verbatim>\<open>fail_json\<close>, which ends the process.
\<close>

fun archive_paths ::
  "os_state \<Rightarrow> bool \<Rightarrow> string list \<Rightarrow> (string \<times> string) list \<Rightarrow> string + (string \<times> string) list" where
  "archive_paths s flat [] acc = Inr acc"
| "archive_paths s flat (path # rest) acc =
     (if \<not> os_path_exists s path then Inl (''path does not exist: '' @ path)
      else archive_paths s flat rest
             (AList.update (expanduser s path) (archive_name flat (expanduser s path)) acc))"

text \<open>Python's truth value of \<^verbatim>\<open>chdir\<close>: neither \<^verbatim>\<open>None\<close> nor the empty string.\<close>

fun truthy :: "string option \<Rightarrow> bool" where
  "truthy None = False"
| "truthy (Some d) = (d \<noteq> [])"

text \<open>Lines 141-160: the result as it is before the first exit.\<close>

definition initial_result :: "params \<Rightarrow> os_state \<Rightarrow> result" where
  "initial_result p s =
     \<lparr>paths = paths p,
      filename = expanduser s (filename p),
      chdir = (if truthy (chdir p) then map_option (expanduser s) (chdir p) else chdir p),
      compress_level = compress_level p,
      flatten = flatten p,
      force = force p,
      changed = False\<rparr>"

text \<open>Lines 164-168, without the call of \<^verbatim>\<open>fail_json\<close>: \<open>Inl\<close> is the exception caught.\<close>

definition enter_chdir :: "string option \<Rightarrow> os_state \<Rightarrow> exn + os_state" where
  "enter_chdir c s =
     (case c of
        None \<Rightarrow> Inr s
      | Some d \<Rightarrow> if d \<noteq> [] then os_chdir s d else Inr s)"

text \<open>Lines 170-204: everything after the change of directory.\<close>

definition build_archive :: "result \<Rightarrow> os_state \<Rightarrow> outcome \<times> os_state" where
  "build_archive r s =
     (if \<not> force r \<and> os_path_exists s (filename r) then (exit_json r, s)
      else
        (case archive_paths s (flatten r) (paths r) [] of
           Inl msg \<Rightarrow> (fail_json msg r, s)
         | Inr aps \<Rightarrow>
             (case resolve_compress_level (compress_level r) of
                Inl msg \<Rightarrow> (fail_json msg r, s)
              | Inr lvl \<Rightarrow>
                  (case zip_create s (filename r) lvl aps of
                     (Some ex, s') \<Rightarrow> (uncaught ex, s')
                   | (None, s') \<Rightarrow> (exit_json (r\<lparr>changed := True\<rparr>), s')))))"

text \<open>\<^verbatim>\<open>run_module\<close>, lines 122-204.\<close>

definition run_module :: "params \<Rightarrow> os_state \<Rightarrow> outcome \<times> os_state" where
  "run_module p s =
     (let r = initial_result p s
      in case enter_chdir (chdir r) s of
           Inl ex \<Rightarrow> (fail_json (str_exn ex) r, s)
         | Inr s1 \<Rightarrow> build_archive r s1)"

subsection \<open>A concrete machine\<close>

text \<open>
  A small directory tree and a process in \<^verbatim>\<open>/w\<close> whose user lives in
  \<^verbatim>\<open>/home/u\<close>: the input of the evaluations below.
\<close>

definition example_tree :: "string list \<Rightarrow> node option" where
  "example_tree =
     Map.empty([] \<mapsto> Dir,
       [''home''] \<mapsto> Dir,
       [''home'', ''u''] \<mapsto> Dir,
       [''home'', ''u'', ''f''] \<mapsto> File (Bytes ''hello''),
       [''w''] \<mapsto> Dir,
       [''w'', ''a.txt''] \<mapsto> File (Bytes ''A''),
       [''w'', ''sub''] \<mapsto> Dir,
       [''w'', ''sub'', ''b.txt''] \<mapsto> File (Bytes ''B''),
       [''w'', ''out.zip''] \<mapsto> File (Bytes ''old''))"

definition example_os :: os_state where
  "example_os = \<lparr>user_home = Some ''/home/u'', pw_dir = Map.empty, cwd = [''w''], fs = example_tree\<rparr>"


section \<open>Properties\<close>

subsection \<open>Strings\<close>

lemma rfind_sep_ge: "- 1 \<le> rfind_sep p"
  by (induction p) (auto simp: Let_def)

lemma rfind_sep_neg: "rfind_sep p < 0 \<Longrightarrow> sep \<notin> set p"
  by (induction p) (auto simp: Let_def split: if_splits)

lemma rfind_sep_lt: "rfind_sep p < int (length p)"
  by (induction p) (auto simp: Let_def)

lemma rfind_sep_nth: "0 \<le> rfind_sep p \<Longrightarrow> p ! nat (rfind_sep p) = sep"
proof (induction p)
  case Nil
  then show ?case by simp
next
  case (Cons c cs)
  show ?case
  proof (cases "0 \<le> rfind_sep cs")
    case True
    then have "nat (rfind_sep cs + 1) = Suc (nat (rfind_sep cs))" by simp
    with True Cons.IH show ?thesis by (simp add: Let_def)
  next
    case False
    with Cons.prems show ?thesis by (simp add: Let_def split: if_splits)
  qed
qed

lemma basename_no_sep: "sep \<notin> set (basename p)"
proof (induction p)
  case Nil
  then show ?case by (simp add: basename_def)
next
  case (Cons c cs)
  show ?case
  proof (cases "0 \<le> rfind_sep cs")
    case True
    then have "nat (rfind_sep cs + 1 + 1) = Suc (nat (rfind_sep cs + 1))" by simp
    with True Cons.IH show ?thesis by (simp add: basename_def Let_def)
  next
    case False
    then have "sep \<notin> set cs" by (simp add: rfind_sep_neg)
    with False show ?thesis by (simp add: basename_def Let_def)
  qed
qed

lemma basename_split: "\<exists>d. p = d @ basename p \<and> (d = [] \<or> last d = sep)"
proof (cases "0 \<le> rfind_sep p")
  case True
  let ?r = "nat (rfind_sep p)"
  have lt: "?r < length p" using True rfind_sep_lt [of p] by simp
  have eq: "nat (rfind_sep p + 1) = Suc ?r" using True by simp
  have "p = take (Suc ?r) p @ basename p" by (simp add: basename_def eq)
  moreover have "last (take (Suc ?r) p) = sep"
    using lt rfind_sep_nth [OF True] by (simp add: take_Suc_conv_app_nth)
  ultimately show ?thesis by blast
next
  case False
  then have "basename p = p" by (simp add: basename_def)
  then show ?thesis by simp
qed

lemma lstrip_sep_split: "\<exists>n. p = replicate n sep @ lstrip_sep p"
proof (induction p)
  case Nil
  then show ?case by (simp add: lstrip_sep_def)
next
  case (Cons c cs)
  show ?case
  proof (cases "c = sep")
    case True
    from Cons.IH obtain n where "cs = replicate n sep @ lstrip_sep cs" by blast
    then have "c # cs = replicate (Suc n) sep @ lstrip_sep (c # cs)"
      using True by (simp add: lstrip_sep_def)
    then show ?thesis by blast
  next
    case False
    then have "c # cs = replicate 0 sep @ lstrip_sep (c # cs)" by (simp add: lstrip_sep_def)
    then show ?thesis by blast
  qed
qed

lemma lstrip_sep_head: "lstrip_sep p = [] \<or> hd (lstrip_sep p) \<noteq> sep"
  unfolding lstrip_sep_def using hd_dropWhile [of "\<lambda>c. c = sep" p] by blast

lemma lstrip_sep_relative: "p = [] \<or> hd p \<noteq> sep \<Longrightarrow> lstrip_sep p = p"
  by (cases p) (auto simp: lstrip_sep_def)


subsection \<open>The loop over the paths\<close>

lemma archive_paths_keys:
  "archive_paths s flat ps acc = Inr aps \<Longrightarrow> distinct (map fst acc) \<Longrightarrow>
     distinct (map fst aps) \<and> set (map fst aps) = set (map fst acc) \<union> expanduser s ` set ps"
proof (induction ps arbitrary: acc)
  case Nil
  then show ?case by simp
next
  case (Cons x xs)
  let ?acc = "AList.update (expanduser s x) (archive_name flat (expanduser s x)) acc"
  from Cons.prems have run: "archive_paths s flat xs ?acc = Inr aps"
    by (simp split: if_splits)
  have "distinct (map fst ?acc)" using Cons.prems(2) by (rule distinct_update)
  from Cons.IH [OF run this] show ?case
    by (auto simp: update_keys split: if_splits)
qed

lemma archive_paths_map_of:
  "archive_paths s flat ps acc = Inr aps \<Longrightarrow>
     map_of aps k = (if k \<in> expanduser s ` set ps then Some (archive_name flat k) else map_of acc k)"
proof (induction ps arbitrary: acc)
  case Nil
  then show ?case by simp
next
  case (Cons x xs)
  let ?acc = "AList.update (expanduser s x) (archive_name flat (expanduser s x)) acc"
  from Cons.prems have run: "archive_paths s flat xs ?acc = Inr aps"
    by (simp split: if_splits)
  from Cons.IH [OF run] show ?case
    by (auto simp: update_conv')
qed

lemma archive_paths_all_exist:
  "archive_paths s flat ps acc = Inr aps \<Longrightarrow> x \<in> set ps \<Longrightarrow> os_path_exists s x"
  by (induction ps arbitrary: acc) (auto split: if_splits)

lemma archive_paths_first_missing:
  "x \<in> set ps \<Longrightarrow> \<not> os_path_exists s x \<Longrightarrow>
     \<exists>ys y zs. ps = ys @ y # zs \<and> (\<forall>z\<in>set ys. os_path_exists s z) \<and> \<not> os_path_exists s y \<and>
       archive_paths s flat ps acc = Inl (''path does not exist: '' @ y)"
proof (induction ps arbitrary: acc)
  case Nil
  then show ?case by simp
next
  case (Cons p ps)
  show ?case
  proof (cases "os_path_exists s p")
    case False
    then have "p # ps = [] @ p # ps \<and> (\<forall>z\<in>set []. os_path_exists s z) \<and> \<not> os_path_exists s p \<and>
       archive_paths s flat (p # ps) acc = Inl (''path does not exist: '' @ p)" by simp
    then show ?thesis by blast
  next
    case True
    let ?acc = "AList.update (expanduser s p) (archive_name flat (expanduser s p)) acc"
    from True Cons.prems have "x \<in> set ps" by auto
    from Cons.IH [OF this Cons.prems(2), of ?acc] obtain ys y zs where
      h: "ps = ys @ y # zs" "\<forall>z\<in>set ys. os_path_exists s z" "\<not> os_path_exists s y"
         "archive_paths s flat ps ?acc = Inl (''path does not exist: '' @ y)" by blast
    have "p # ps = (p # ys) @ y # zs \<and> (\<forall>z\<in>set (p # ys). os_path_exists s z) \<and> \<not> os_path_exists s y \<and>
       archive_paths s flat (p # ps) acc = Inl (''path does not exist: '' @ y)"
      using h True by simp
    then show ?thesis by blast
  qed
qed

lemma archive_paths_entries:
  assumes "archive_paths s flat ps [] = Inr aps"
  shows "distinct (map fst aps)"
    and "set (map fst aps) = expanduser s ` set ps"
    and "map_of aps k = (if k \<in> expanduser s ` set ps then Some (archive_name flat k) else None)"
    and "(k, v) \<in> set aps \<Longrightarrow> v = archive_name flat k"
proof -
  from archive_paths_keys [OF assms] show d: "distinct (map fst aps)"
    and "set (map fst aps) = expanduser s ` set ps" by simp_all
  from archive_paths_map_of [OF assms, of k]
  show m: "map_of aps k = (if k \<in> expanduser s ` set ps then Some (archive_name flat k) else None)"
    by simp
  assume "(k, v) \<in> set aps"
  with d have "map_of aps k = Some v" by simp
  with m show "v = archive_name flat k" by (simp split: if_splits)
qed


subsection \<open>The filesystem\<close>

lemma split_sep_nonempty: "split_sep p \<noteq> []"
  by (induction p) (auto split: list.splits)

lemma walk_append:
  "walk t cur (xs @ ys) = (case walk t cur xs of Inl e \<Rightarrow> Inl e | Inr d \<Rightarrow> walk t d ys)"
  by (induction t cur xs rule: walk.induct) auto

lemma walk_upd:
  "walk t cur cs = Inr l \<Longrightarrow> t k \<noteq> Some Dir \<Longrightarrow> walk (t(k \<mapsto> File c)) cur cs = Inr l"
proof (induction t cur cs rule: walk.induct)
  case (1 t cur)
  then show ?case by simp
next
  case (2 t cur c' cs)
  from "2.prems" have dir: "t cur = Some Dir" by (simp split: if_splits)
  with "2.prems" have ne: "cur \<noteq> k" by auto
  show ?case
    using "2.prems" "2.IH" dir ne by (auto split: if_splits)
qed

lemma write_all_state:
  "snd (write_all t lvl ms s aps) = s \<or>
     (\<exists>c. snd (write_all t lvl ms s aps) = s\<lparr>fs := (fs s)(t \<mapsto> File c)\<rparr>)"
proof (induction aps arbitrary: ms s)
  case Nil
  then show ?case by simp
next
  case (Cons a aps)
  obtain path arc where a: "a = (path, arc)" by (cases a)
  show ?case
  proof (cases "read_member s lvl path")
    case (Inl ex)
    then show ?thesis by (simp add: a)
  next
    case (Inr m)
    let ?ms = "ms @ [(arc, m)]"
    let ?s = "s\<lparr>fs := (fs s)(t \<mapsto> File (Archive lvl ?ms))\<rparr>"
    have step: "write_all t lvl ms s (a # aps) = write_all t lvl ?ms ?s aps"
      by (simp add: a Inr)
    have "?s\<lparr>fs := (fs ?s)(t \<mapsto> File c)\<rparr> = s\<lparr>fs := (fs s)(t \<mapsto> File c)\<rparr>" for c
      by simp
    with Cons.IH [of ?ms ?s] show ?thesis
      unfolding step by metis
  qed
qed

lemma write_all_members:
  "write_all t lvl ms s aps = (None, s') \<Longrightarrow> fs s t = Some (File (Archive lvl ms)) \<Longrightarrow>
     \<exists>ms'. fs s' t = Some (File (Archive lvl ms')) \<and> map fst ms' = map fst ms @ map snd aps"
proof (induction aps arbitrary: ms s)
  case Nil
  then show ?case by auto
next
  case (Cons a aps)
  obtain path arc where a: "a = (path, arc)" by (cases a)
  from Cons.prems(1) obtain m where m: "read_member s lvl path = Inr m"
    by (cases "read_member s lvl path") (auto simp: a)
  let ?ms = "ms @ [(arc, m)]"
  let ?s = "s\<lparr>fs := (fs s)(t \<mapsto> File (Archive lvl ?ms))\<rparr>"
  from Cons.prems(1) have "write_all t lvl ?ms ?s aps = (None, s')" by (simp add: a m)
  from Cons.IH [OF this] show ?case by (auto simp: a)
qed

lemma zip_create_state:
  assumes "open_w s f = Inr t"
  shows "\<exists>c. snd (zip_create s f lvl aps) = s\<lparr>fs := (fs s)(t \<mapsto> File c)\<rparr>"
proof -
  let ?s = "s\<lparr>fs := (fs s)(t \<mapsto> File (Archive lvl []))\<rparr>"
  have eq: "zip_create s f lvl aps = write_all t lvl [] ?s aps"
    by (simp add: zip_create_def assms)
  from write_all_state [of t lvl "[]" ?s aps] show ?thesis
    unfolding eq by auto
qed

lemma zip_create_failed_open:
  "open_w s f = Inl ex \<Longrightarrow> zip_create s f lvl aps = (Some ex, s)"
  by (simp add: zip_create_def)

lemma zip_create_members:
  assumes "zip_create s f lvl aps = (None, s')"
  shows "\<exists>t ms. open_w s f = Inr t \<and> fs s' t = Some (File (Archive lvl ms)) \<and> map fst ms = map snd aps"
proof (cases "open_w s f")
  case (Inl ex)
  with assms show ?thesis by (simp add: zip_create_def)
next
  case (Inr t)
  let ?s = "s\<lparr>fs := (fs s)(t \<mapsto> File (Archive lvl []))\<rparr>"
  from assms Inr have "write_all t lvl [] ?s aps = (None, s')" by (simp add: zip_create_def)
  from write_all_members [OF this] Inr show ?thesis by auto
qed

lemma open_w_target:
  assumes "open_w s f = Inr t"
  shows "f \<noteq> [] \<and> fs s t \<noteq> Some Dir \<and>
     (\<exists>d n. t = d @ [n] \<and> walk (fs s) (start_dir s f) (butlast (split_sep f)) = Inr d \<and>
        last (split_sep f) = n \<and> fs s d = Some Dir \<and> n \<noteq> [] \<and> n \<noteq> ''.'' \<and> n \<noteq> ''..'')"
  using assms by (auto simp: open_w_def Let_def split: if_splits sum.splits)

lemma start_dir_cong: "cwd s' = cwd s \<Longrightarrow> start_dir s' p = start_dir s p"
  by (simp add: start_dir_def split: list.splits)

lemma exists_after_create:
  assumes "open_w s f = Inr t" and "fs s' = (fs s)(t \<mapsto> File c)" and "cwd s' = cwd s"
  shows "os_path_exists s' f"
proof -
  from open_w_target [OF assms(1)] obtain d n where
    h: "f \<noteq> []" "fs s t \<noteq> Some Dir" "t = d @ [n]"
       "walk (fs s) (start_dir s f) (butlast (split_sep f)) = Inr d"
       "last (split_sep f) = n" "fs s d = Some Dir" "n \<noteq> []" "n \<noteq> ''.''" "n \<noteq> ''..''"
    by blast
  have comps: "split_sep f = butlast (split_sep f) @ [n]"
    using split_sep_nonempty [of f] h(5) by (metis append_butlast_last_id)
  have w1: "walk (fs s') (start_dir s' f) (butlast (split_sep f)) = Inr d"
    using walk_upd [OF h(4) h(2)] assms(2) start_dir_cong [OF assms(3), of f] by simp
  have dne: "d \<noteq> t" using h(2,6) by auto
  have dd: "fs s' d = Some Dir" using dne h(6) assms(2) by simp
  have tt: "fs s' (d @ [n]) = Some (File c)" using h(3) assms(2) by simp
  have w2: "walk (fs s') d [n] = Inr t"
    using dd tt h(3,7,8,9) by simp
  have "walk (fs s') (start_dir s' f) (butlast (split_sep f) @ [n]) = walk (fs s') d [n]"
    by (simp only: walk_append w1 sum.case)
  with comps w2 have "walk (fs s') (start_dir s' f) (split_sep f) = Inr t"
    by simp
  then show ?thesis using h(1) by (simp add: os_path_exists_def resolve_def)
qed

lemma os_chdir_state:
  "os_chdir s d = Inr s1 \<Longrightarrow> \<exists>l. resolve s d = Inr l \<and> fs s l = Some Dir \<and> s1 = s\<lparr>cwd := l\<rparr>"
  by (auto simp: os_chdir_def split: sum.splits if_splits)

lemma enter_chdir_state:
  "enter_chdir c s = Inr s1 \<Longrightarrow> fs s1 = fs s \<and> user_home s1 = user_home s \<and> pw_dir s1 = pw_dir s"
  by (auto simp: enter_chdir_def dest!: os_chdir_state split: option.splits if_splits)

lemma expanduser_cong:
  "user_home s' = user_home s \<Longrightarrow> pw_dir s' = pw_dir s \<Longrightarrow> expanduser s' p = expanduser s p"
  by (cases p) (simp_all add: expanduser_def Let_def)

lemma enter_chdir_again:
  assumes "enter_chdir c s = Inr s1" and "fs s1 t \<noteq> Some Dir"
  shows "enter_chdir c (s1\<lparr>fs := (fs s1)(t \<mapsto> File x), cwd := cwd s\<rparr>) = Inr (s1\<lparr>fs := (fs s1)(t \<mapsto> File x)\<rparr>)"
proof (cases "truthy c")
  case False
  with assms show ?thesis by (cases c) (auto simp: enter_chdir_def)
next
  case True
  then obtain d where c: "c = Some d" "d \<noteq> []" by (cases c) auto
  with assms(1) have "os_chdir s d = Inr s1" by (simp add: enter_chdir_def)
  from os_chdir_state [OF this] obtain l where
    l: "resolve s d = Inr l" "fs s l = Some Dir" "s1 = s\<lparr>cwd := l\<rparr>" by blast
  let ?s2 = "s1\<lparr>fs := (fs s1)(t \<mapsto> File x), cwd := cwd s\<rparr>"
  have t: "fs s t \<noteq> Some Dir" using assms(2) l(3) by simp
  have w: "walk (fs s) (start_dir s d) (split_sep d) = Inr l"
    using l(1) c(2) by (simp add: resolve_def)
  have sd: "start_dir ?s2 d = start_dir s d" by (rule start_dir_cong) simp
  have "walk (fs ?s2) (start_dir ?s2 d) (split_sep d) = Inr l"
    unfolding sd using walk_upd [OF w t, of x] l(3) by simp
  then have r: "resolve ?s2 d = Inr l" using c(2) by (simp add: resolve_def)
  have "l \<noteq> t" using t l(2) by auto
  then have "fs ?s2 l = Some Dir" using l(2,3) by simp
  with r have "os_chdir ?s2 d = Inr (?s2\<lparr>cwd := l\<rparr>)" by (simp add: os_chdir_def)
  moreover have "?s2\<lparr>cwd := l\<rparr> = s1\<lparr>fs := (fs s1)(t \<mapsto> File x)\<rparr>" using l(3) by simp
  ultimately show ?thesis using c by (simp add: enter_chdir_def)
qed

subsection \<open>The ways through the module\<close>

lemma run_module_cases:
  fixes p s
  defines "r0 \<equiv> initial_result p s"
  obtains
    (chdir_failed) ex where
      "enter_chdir (chdir r0) s = Inl ex" "run_module p s = (fail_json (str_exn ex) r0, s)"
  | (noop) s1 where
      "enter_chdir (chdir r0) s = Inr s1" "\<not> force p" "os_path_exists s1 (filename r0)"
      "run_module p s = (exit_json r0, s1)"
  | (path_missing) s1 msg where
      "enter_chdir (chdir r0) s = Inr s1" "force p \<or> \<not> os_path_exists s1 (filename r0)"
      "archive_paths s1 (flatten p) (paths p) [] = Inl msg"
      "run_module p s = (fail_json msg r0, s1)"
  | (bad_level) s1 aps msg where
      "enter_chdir (chdir r0) s = Inr s1" "force p \<or> \<not> os_path_exists s1 (filename r0)"
      "archive_paths s1 (flatten p) (paths p) [] = Inr aps"
      "resolve_compress_level (compress_level p) = Inl msg"
      "run_module p s = (fail_json msg r0, s1)"
  | (crashed) s1 aps lvl ex s' where
      "enter_chdir (chdir r0) s = Inr s1" "force p \<or> \<not> os_path_exists s1 (filename r0)"
      "archive_paths s1 (flatten p) (paths p) [] = Inr aps"
      "resolve_compress_level (compress_level p) = Inr lvl"
      "zip_create s1 (filename r0) lvl aps = (Some ex, s')"
      "run_module p s = (uncaught ex, s')"
  | (committed) s1 aps lvl s' where
      "enter_chdir (chdir r0) s = Inr s1" "force p \<or> \<not> os_path_exists s1 (filename r0)"
      "archive_paths s1 (flatten p) (paths p) [] = Inr aps"
      "resolve_compress_level (compress_level p) = Inr lvl"
      "zip_create s1 (filename r0) lvl aps = (None, s')"
      "run_module p s = (exit_json (r0\<lparr>changed := True\<rparr>), s')"
proof -
  have f: "force r0 = force p" "flatten r0 = flatten p" "paths r0 = paths p"
    "compress_level r0 = compress_level p"
    by (simp_all add: r0_def initial_result_def)
  show thesis
  proof (cases "enter_chdir (chdir r0) s")
    case (Inl ex)
    then have "run_module p s = (fail_json (str_exn ex) r0, s)"
      by (simp add: run_module_def r0_def [symmetric])
    with Inl show thesis by (rule chdir_failed)
  next
    case (Inr s1)
    then have run: "run_module p s = build_archive r0 s1"
      by (simp add: run_module_def r0_def [symmetric])
    show thesis
    proof (cases "\<not> force p \<and> os_path_exists s1 (filename r0)")
      case True
      then have "run_module p s = (exit_json r0, s1)"
        by (simp add: run build_archive_def f)
      with Inr True show thesis by (blast intro: noop)
    next
      case False
      then have g: "force p \<or> \<not> os_path_exists s1 (filename r0)" by blast
      show thesis
      proof (cases "archive_paths s1 (flatten p) (paths p) []")
        case (Inl msg)
        with False have "run_module p s = (fail_json msg r0, s1)"
          by (simp add: run build_archive_def f)
        with Inr g Inl show thesis by (rule path_missing)
      next
        case aps: (Inr aps)
        show thesis
        proof (cases "resolve_compress_level (compress_level p)")
          case (Inl msg)
          with False aps have "run_module p s = (fail_json msg r0, s1)"
            by (simp add: run build_archive_def f)
          with Inr g aps Inl show thesis by (rule bad_level)
        next
          case lvl: (Inr lvl)
          obtain e s' where z: "zip_create s1 (filename r0) lvl aps = (e, s')"
            by (cases "zip_create s1 (filename r0) lvl aps")
          show thesis
          proof (cases e)
            case None
            with False aps lvl z have "run_module p s = (exit_json (r0\<lparr>changed := True\<rparr>), s')"
              by (auto simp: run build_archive_def f)
            with Inr g aps lvl z None show thesis by (blast intro: committed)
          next
            case (Some ex)
            with False aps lvl z have "run_module p s = (uncaught ex, s')"
              by (auto simp: run build_archive_def f)
            with Inr g aps lvl z Some show thesis by (blast intro: crashed)
          qed
        qed
      qed
    qed
  qed
qed

lemma initial_result_fields:
  "paths (initial_result p s) = paths p"
  "compress_level (initial_result p s) = compress_level p"
  "flatten (initial_result p s) = flatten p"
  "force (initial_result p s) = force p"
  "changed (initial_result p s) = False"
  "filename (initial_result p s) = expanduser s (filename p)"
  by (simp_all add: initial_result_def)

lemma initial_result_cong:
  "user_home s' = user_home s \<Longrightarrow> pw_dir s' = pw_dir s \<Longrightarrow> initial_result p s' = initial_result p s"
proof -
  assume "user_home s' = user_home s" and "pw_dir s' = pw_dir s"
  then have "expanduser s' x = expanduser s x" for x
    by (rule expanduser_cong)
  then have "expanduser s' = expanduser s" by (rule ext)
  then show ?thesis by (simp add: initial_result_def)
qed

lemma enter_chdir_back:
  "enter_chdir c s = Inr s1 \<Longrightarrow> s1\<lparr>cwd := cwd s\<rparr> = s"
  by (auto simp: enter_chdir_def dest!: os_chdir_state split: option.splits if_splits)

lemma run_module_noop:
  assumes "enter_chdir (chdir (initial_result p s)) s = Inr s1" and "\<not> force p"
    and "os_path_exists s1 (filename (initial_result p s))"
  shows "run_module p s = (exit_json (initial_result p s), s1)"
  using assms by (simp add: run_module_def build_archive_def initial_result_fields)

lemma second_run_after_write:
  assumes c: "enter_chdir (chdir (initial_result p s)) s = Inr s1"
    and o: "open_w s1 (filename (initial_result p s)) = Inr t"
    and s': "s' = s1\<lparr>fs := (fs s1)(t \<mapsto> File x)\<rparr>"
    and nf: "\<not> force p"
  shows "run_module p (s'\<lparr>cwd := cwd s\<rparr>) = (exit_json (initial_result p s), s')"
proof -
  let ?s2 = "s'\<lparr>cwd := cwd s\<rparr>"
  from enter_chdir_state [OF c] have same: "user_home s1 = user_home s" "pw_dir s1 = pw_dir s"
    by simp_all
  have r: "initial_result p ?s2 = initial_result p s"
    by (rule initial_result_cong) (simp_all add: s' same)
  from open_w_target [OF o] have nd: "fs s1 t \<noteq> Some Dir" by blast
  have e: "enter_chdir (chdir (initial_result p s)) ?s2 = Inr s'"
    unfolding s' using enter_chdir_again [OF c nd] by simp
  have x: "os_path_exists s' (filename (initial_result p s))"
    by (rule exists_after_create [OF o]) (simp_all add: s')
  show ?thesis
    using run_module_noop [of p ?s2 s'] e x nf unfolding r by simp
qed

subsection \<open>Evaluation\<close>

lemmas os_defs =
  example_os_def example_tree_def os_path_exists_def resolve_def start_dir_def sep_def
  expanduser_def rstrip_sep_def lstrip_sep_def basename_def os_chdir_def open_w_def
  read_member_def zip_create_def

lemmas module_defs =
  run_module_def initial_result_def enter_chdir_def build_archive_def archive_name_def
  resolve_compress_level_def COMPRESS_MAPPING_def


section \<open>The claims\<close>

subsection \<open>C1: the compression resolver\<close>

lemma resolve_compress_level_tokens:
  "resolve_compress_level (PyStr ''default'') = Inr (- 1)"
  "resolve_compress_level (PyStr ''none'') = Inr 0"
  "resolve_compress_level (PyStr ''fast'') = Inr 1"
  "resolve_compress_level (PyStr ''best'') = Inr 9"
  by (simp_all add: module_defs)

lemma resolve_compress_level_int: "resolve_compress_level (PyInt n) = Inr n"
  by (simp add: module_defs)

lemma resolve_compress_level_other_string:
  "v \<notin> {''default'', ''none'', ''fast'', ''best''} \<Longrightarrow>
     resolve_compress_level (PyStr v) = Inl (''incorrect value for 'compress_level' option: '' @ v)"
  by (simp add: module_defs)

text \<open>
  C1 at the string \<^verbatim>\<open>"5"\<close>, one of the values \<^verbatim>\<open>COMPRESS_CHOICES\<close> admits: it
  is not a key of \<^verbatim>\<open>COMPRESS_MAPPING\<close> and not an instance of \<^verbatim>\<open>int\<close>, so the
  resolver reports it as an incorrect value, and a run that reaches the resolver with
  it fails instead of compressing at level 5.
\<close>

theorem numeric_string_level_rejected:
  "resolve_compress_level (PyStr ''5'') =
     Inl ''incorrect value for 'compress_level' option: 5'' \<and>
   run_module
     \<lparr>paths = [''a.txt''], filename = ''new.zip'', chdir = None,
      compress_level = PyStr ''5'', flatten = False, force = False\<rparr> example_os =
   (fail_json ''incorrect value for 'compress_level' option: 5''
     \<lparr>paths = [''a.txt''], filename = ''new.zip'', chdir = None,
      compress_level = PyStr ''5'', flatten = False, force = False, changed = False\<rparr>,
    example_os)"
  by (simp add: os_defs module_defs)

subsection \<open>C2: a path that does not exist\<close>

text \<open>
  C2, as the code has it. Once the change of directory is behind, a run in which some
  element of \<^verbatim>\<open>paths\<close> does not exist never changes the filesystem. When
  \<^verbatim>\<open>force\<close> is set or the destination does not exist, it fails, naming the first
  element of \<^verbatim>\<open>paths\<close> that does not exist. When \<^verbatim>\<open>force\<close> is not set and
  the destination exists, it does not fail: it is the no-op exit.
\<close>

theorem missing_path_fails_unless_noop:
  assumes "enter_chdir (chdir (initial_result p s)) s = Inr s1"
    and "x \<in> set (paths p)"
    and "\<not> os_path_exists s1 x"
  shows "fs (snd (run_module p s)) = fs s \<and>
         (force p \<or> \<not> os_path_exists s1 (filename (initial_result p s)) \<longrightarrow>
            (\<exists>ys y zs. paths p = ys @ y # zs \<and> (\<forall>z\<in>set ys. os_path_exists s1 z) \<and>
               \<not> os_path_exists s1 y \<and>
               run_module p s =
                 (fail_json (''path does not exist: '' @ y) (initial_result p s), s1))) \<and>
         (\<not> force p \<and> os_path_exists s1 (filename (initial_result p s)) \<longrightarrow>
            run_module p s = (exit_json (initial_result p s), s1))"
proof -
  from enter_chdir_state [OF assms(1)] have same: "fs s1 = fs s" by simp
  from archive_paths_first_missing [OF assms(2,3), of "flatten p" "[]"] obtain ys y zs where
    m: "paths p = ys @ y # zs" "\<forall>z\<in>set ys. os_path_exists s1 z" "\<not> os_path_exists s1 y"
       "archive_paths s1 (flatten p) (paths p) [] = Inl (''path does not exist: '' @ y)"
    by blast
  have run: "run_module p s = build_archive (initial_result p s) s1"
    using assms(1) by (simp add: run_module_def)
  show ?thesis
  proof (cases "\<not> force p \<and> os_path_exists s1 (filename (initial_result p s))")
    case True
    then have "run_module p s = (exit_json (initial_result p s), s1)"
      using assms(1) by (simp add: run_module_noop)
    with True same show ?thesis by simp
  next
    case False
    then have "run_module p s =
        (fail_json (''path does not exist: '' @ y) (initial_result p s), s1)"
      by (auto simp: run build_archive_def initial_result_fields m(4))
    with False same m(1,2,3) show ?thesis by auto
  qed
qed

theorem missing_path_fails_unless_noop_witness:
  "\<not> os_path_exists example_os ''missing.txt'' \<and>
   \<not> os_path_exists example_os ''new.zip'' \<and>
   run_module
     \<lparr>paths = [''a.txt'', ''missing.txt'', ''gone.txt''], filename = ''new.zip'', chdir = None,
      compress_level = PyStr ''default'', flatten = False, force = False\<rparr> example_os =
   (fail_json ''path does not exist: missing.txt''
     \<lparr>paths = [''a.txt'', ''missing.txt'', ''gone.txt''], filename = ''new.zip'', chdir = None,
      compress_level = PyStr ''default'', flatten = False, force = False, changed = False\<rparr>,
    example_os) \<and>
   os_path_exists example_os ''out.zip'' \<and>
   run_module
     \<lparr>paths = [''a.txt'', ''missing.txt'', ''gone.txt''], filename = ''out.zip'', chdir = None,
      compress_level = PyStr ''default'', flatten = False, force = True\<rparr> example_os =
   (fail_json ''path does not exist: missing.txt''
     \<lparr>paths = [''a.txt'', ''missing.txt'', ''gone.txt''], filename = ''out.zip'', chdir = None,
      compress_level = PyStr ''default'', flatten = False, force = True, changed = False\<rparr>,
    example_os)"
proof -
  let ?p = "\<lparr>paths = [''a.txt'', ''missing.txt'', ''gone.txt''], filename = ''new.zip'', chdir = None,
      compress_level = PyStr ''default'', flatten = False, force = False\<rparr>"
  let ?q = "\<lparr>paths = [''a.txt'', ''missing.txt'', ''gone.txt''], filename = ''out.zip'', chdir = None,
      compress_level = PyStr ''default'', flatten = False, force = True\<rparr>"
  have cp: "enter_chdir (chdir (initial_result ?p example_os)) example_os = Inr example_os"
    by (simp add: initial_result_def enter_chdir_def)
  have cq: "enter_chdir (chdir (initial_result ?q example_os)) example_os = Inr example_os"
    by (simp add: initial_result_def enter_chdir_def)
  have xp: "''missing.txt'' \<in> set (paths ?p)" and xq: "''missing.txt'' \<in> set (paths ?q)"
    by simp_all
  have m: "\<not> os_path_exists example_os ''missing.txt''" by (simp add: os_defs)
  have n: "\<not> os_path_exists example_os ''new.zip''" by (simp add: os_defs)
  have o: "os_path_exists example_os ''out.zip''" by (simp add: os_defs)
  have rp: "run_module ?p example_os =
   (fail_json ''path does not exist: missing.txt''
     \<lparr>paths = [''a.txt'', ''missing.txt'', ''gone.txt''], filename = ''new.zip'', chdir = None,
      compress_level = PyStr ''default'', flatten = False, force = False, changed = False\<rparr>,
    example_os)"
    by (simp add: os_defs module_defs)
  have rq: "run_module ?q example_os =
   (fail_json ''path does not exist: missing.txt''
     \<lparr>paths = [''a.txt'', ''missing.txt'', ''gone.txt''], filename = ''out.zip'', chdir = None,
      compress_level = PyStr ''default'', flatten = False, force = True, changed = False\<rparr>,
    example_os)"
    by (simp add: os_defs module_defs)
  from missing_path_fails_unless_noop [OF cp xp m] missing_path_fails_unless_noop [OF cq xq m]
    m n o rp rq
  show ?thesis by simp
qed

text \<open>
  C2 as it is stated fails: without \<^verbatim>\<open>force\<close> and with the destination in place,
  a run whose only path does not exist succeeds.
\<close>

theorem missing_path_counterexample:
  "\<not> os_path_exists example_os ''missing.txt'' \<and>
   run_module
     \<lparr>paths = [''missing.txt''], filename = ''out.zip'', chdir = None,
      compress_level = PyStr ''default'', flatten = False, force = False\<rparr> example_os =
   (exit_json
     \<lparr>paths = [''missing.txt''], filename = ''out.zip'', chdir = None,
      compress_level = PyStr ''default'', flatten = False, force = False, changed = False\<rparr>,
    example_os)"
  by (simp add: os_defs module_defs)

subsection \<open>C3: expansion and the existence check\<close>

lemma archive_paths_checks_unexpanded:
  "\<not> os_path_exists s path \<Longrightarrow>
     archive_paths s flat (path # rest) acc = Inl (''path does not exist: '' @ path)"
  by simp

lemma find_sep_nth:
  "0 \<le> find_sep cs \<Longrightarrow> nat (find_sep cs) < length cs \<and> cs ! nat (find_sep cs) = sep"
proof (induction cs)
  case Nil
  then show ?case by simp
next
  case (Cons c cs)
  show ?case
  proof (cases "c = sep")
    case True
    then show ?thesis by simp
  next
    case False
    with Cons.prems have r: "0 \<le> find_sep cs" by (simp add: Let_def split: if_splits)
    then have "nat (find_sep cs + 1) = Suc (nat (find_sep cs))" by simp
    with False r Cons.IH show ?thesis by (simp add: Let_def)
  qed
qed

lemma last_dropWhile: "dropWhile P xs \<noteq> [] \<Longrightarrow> last (dropWhile P xs) = last xs"
  by (induction xs) (auto split: if_splits)

lemma rstrip_sep_hd: "rstrip_sep h \<noteq> [] \<Longrightarrow> hd (rstrip_sep h) = hd h"
proof -
  assume ne: "rstrip_sep h \<noteq> []"
  then have d: "dropWhile (\<lambda>c. c = sep) (rev h) \<noteq> []" by (simp add: rstrip_sep_def)
  then have h: "h \<noteq> []" by auto
  have "hd (rstrip_sep h) = last (dropWhile (\<lambda>c. c = sep) (rev h))"
    using d by (simp add: rstrip_sep_def hd_rev)
  also have "\<dots> = last (rev h)" using d by (rule last_dropWhile)
  also have "\<dots> = hd h" using h by (simp add: last_rev)
  finally show ?thesis .
qed

lemma expanduser_no_tilde: "take 1 x \<noteq> ''~'' \<Longrightarrow> expanduser s x = x"
  by (cases x) (auto simp: expanduser_def)

lemma drop_at_sep:
  "0 \<le> find_sep rest \<Longrightarrow> hd (drop (nat (find_sep rest + 1)) (c # rest)) = sep"
proof -
  assume f: "0 \<le> find_sep rest"
  then have "nat (find_sep rest + 1) = Suc (nat (find_sep rest))" by simp
  with find_sep_nth [OF f] show ?thesis by (simp add: hd_drop_conv_nth)
qed

lemma home_prefix_no_tilde:
  assumes "take 1 h \<noteq> ''~''" and "d = [] \<or> hd d = sep"
  shows "take 1 (if rstrip_sep h @ d = [] then [sep] else rstrip_sep h @ d) \<noteq> ''~''"
proof (cases "rstrip_sep h = []")
  case True
  with assms(2) show ?thesis by (cases d) (auto simp: sep_def)
next
  case False
  then have "h \<noteq> []" by (auto simp: rstrip_sep_def)
  with assms(1) have "hd h \<noteq> CHR ''~''" by (cases h) auto
  with rstrip_sep_hd [OF False] have "hd (rstrip_sep h) \<noteq> CHR ''~''" by simp
  with False show ?thesis by (cases "rstrip_sep h") auto
qed

lemma expanduser_tilde:
  "expanduser s (CHR ''~'' # rest) = CHR ''~'' # rest \<or>
   (\<exists>h d. (user_home s = Some h \<or> (\<exists>n. pw_dir s n = Some h)) \<and> (d = [] \<or> hd d = sep) \<and>
      expanduser s (CHR ''~'' # rest) =
        (if rstrip_sep h @ d = [] then [sep] else rstrip_sep h @ d))"
proof (cases "find_sep rest < 0")
  case True
  have n: "nat (1 + int (length rest)) = Suc (length rest)" by linarith
  from True have e: "expanduser s (CHR ''~'' # rest) =
      (case (if rest = [] then user_home s else pw_dir s rest) of
         None \<Rightarrow> CHR ''~'' # rest
       | Some h \<Rightarrow> (if rstrip_sep h @ [] = [] then [sep] else rstrip_sep h @ []))"
    by (simp add: expanduser_def Let_def n split: option.splits)
  show ?thesis
  proof (cases "if rest = [] then user_home s else pw_dir s rest")
    case None
    with e show ?thesis by simp
  next
    case (Some h)
    then have "user_home s = Some h \<or> (\<exists>n. pw_dir s n = Some h)"
      by (auto split: if_splits)
    moreover from e Some have "expanduser s (CHR ''~'' # rest) =
        (if rstrip_sep h @ [] = [] then [sep] else rstrip_sep h @ [])" by simp
    ultimately show ?thesis by blast
  qed
next
  case False
  let ?d = "drop (nat (find_sep rest + 1)) (CHR ''~'' # rest)"
  let ?u = "if find_sep rest = 0 then user_home s
            else pw_dir s (take (nat (find_sep rest + 1) - 1) rest)"
  from False have e: "expanduser s (CHR ''~'' # rest) =
      (case ?u of
         None \<Rightarrow> CHR ''~'' # rest
       | Some h \<Rightarrow> (if rstrip_sep h @ ?d = [] then [sep] else rstrip_sep h @ ?d))"
    by (simp add: expanduser_def Let_def split: option.splits)
  from False have d: "hd ?d = sep" by (intro drop_at_sep) simp
  show ?thesis
  proof (cases ?u)
    case None
    with e show ?thesis by simp
  next
    case (Some h)
    then have "user_home s = Some h \<or> (\<exists>n. pw_dir s n = Some h)"
      by (auto split: if_splits)
    moreover from e Some have "expanduser s (CHR ''~'' # rest) =
        (if rstrip_sep h @ ?d = [] then [sep] else rstrip_sep h @ ?d)" by simp
    ultimately show ?thesis using d by blast
  qed
qed

lemma expanduser_result:
  assumes u: "\<forall>h. user_home s = Some h \<longrightarrow> take 1 h \<noteq> ''~''"
    and w: "\<forall>n h. pw_dir s n = Some h \<longrightarrow> take 1 h \<noteq> ''~''"
  shows "expanduser s y = y \<or> take 1 (expanduser s y) \<noteq> ''~''"
proof (cases "take 1 y = ''~''")
  case False
  then show ?thesis by (simp add: expanduser_no_tilde)
next
  case True
  then obtain rest where y: "y = CHR ''~'' # rest" by (cases y) auto
  from expanduser_tilde [of s rest] show ?thesis
  proof
    assume "expanduser s (CHR ''~'' # rest) = CHR ''~'' # rest"
    then show ?thesis by (simp add: y)
  next
    assume "\<exists>h d. (user_home s = Some h \<or> (\<exists>n. pw_dir s n = Some h)) \<and> (d = [] \<or> hd d = sep) \<and>
      expanduser s (CHR ''~'' # rest) =
        (if rstrip_sep h @ d = [] then [sep] else rstrip_sep h @ d)"
    then obtain h d where
      h: "user_home s = Some h \<or> (\<exists>n. pw_dir s n = Some h)" and d: "d = [] \<or> hd d = sep"
      and e: "expanduser s (CHR ''~'' # rest) =
        (if rstrip_sep h @ d = [] then [sep] else rstrip_sep h @ d)" by blast
    from h u w have "take 1 h \<noteq> ''~''" by blast
    from home_prefix_no_tilde [OF this d] e show ?thesis by (simp add: y)
  qed
qed

lemma expanduser_idem:
  assumes "\<forall>h. user_home s = Some h \<longrightarrow> take 1 h \<noteq> ''~''"
    and "\<forall>n h. pw_dir s n = Some h \<longrightarrow> take 1 h \<noteq> ''~''"
  shows "expanduser s (expanduser s y) = expanduser s y"
  using expanduser_result [OF assms, of y] expanduser_no_tilde [of "expanduser s y" s]
  by auto

lemma archive_paths_succeeds:
  "\<forall>x\<in>set ps. os_path_exists s x \<Longrightarrow> \<exists>aps. archive_paths s flat ps acc = Inr aps"
  by (induction ps arbitrary: acc) auto

lemma resolve_compress_level_message:
  "resolve_compress_level v = Inl msg \<Longrightarrow>
     \<exists>x. msg = ''incorrect value for 'compress_level' option: '' @ x"
  by (auto simp: resolve_compress_level_def split: option.splits py_value.splits)

text \<open>
  C3. Let the elements of \<^verbatim>\<open>paths\<close> be what the constructor delivers for the source
  paths \<open>vs\<close>, and let the run reach the loop (the change of directory is behind and
  the no-op guard does not fire). Every source path is expanded before the loop tests
  it, and the test is made on the expanded path: when all expanded paths exist the run
  does not fail for a missing path, and the mapping holds, under the expanded path, the
  entry name computed from it; when one does not exist the run fails naming such an
  expanded path. The expansion the loop applies once more changes nothing as long as no
  home directory itself starts with \<^verbatim>\<open>~\<close>.
\<close>

theorem paths_expanded_before_existence_check:
  assumes "paths p = map (check_type_path ev s) vs"
    and "enter_chdir (chdir (initial_result p s)) s = Inr s1"
    and "force p \<or> \<not> os_path_exists s1 (filename (initial_result p s))"
  shows "(\<forall>v. check_type_path ev s v = expanduser s (ev v)) \<and>
         ((\<forall>v\<in>set vs. os_path_exists s1 (check_type_path ev s v)) \<longrightarrow>
            (\<exists>aps. archive_paths s1 (flatten p) (paths p) [] = Inr aps \<and>
               (\<forall>v\<in>set vs.
                  map_of aps (expanduser s (check_type_path ev s v)) =
                    Some (archive_name (flatten p) (expanduser s (check_type_path ev s v)))) \<and>
               (\<forall>m r st. run_module p s \<noteq> (fail_json (''path does not exist: '' @ m) r, st)))) \<and>
         ((\<exists>v\<in>set vs. \<not> os_path_exists s1 (check_type_path ev s v)) \<longrightarrow>
            (\<exists>y\<in>set vs. \<not> os_path_exists s1 (check_type_path ev s y) \<and>
               run_module p s =
                 (fail_json (''path does not exist: '' @ check_type_path ev s y)
                    (initial_result p s), s1))) \<and>
         ((\<forall>h. user_home s = Some h \<longrightarrow> take 1 h \<noteq> ''~'') \<and>
          (\<forall>n h. pw_dir s n = Some h \<longrightarrow> take 1 h \<noteq> ''~'') \<longrightarrow>
            (\<forall>v. expanduser s (check_type_path ev s v) = check_type_path ev s v))"
proof -
  from enter_chdir_state [OF assms(2)] have "expanduser s1 q = expanduser s q" for q
    by (intro expanduser_cong) simp_all
  then have ex: "expanduser s1 = expanduser s" by (rule ext)
  have run: "run_module p s = build_archive (initial_result p s) s1"
    using assms(2) by (simp add: run_module_def)
  have guard: "\<not> (\<not> force p \<and> os_path_exists s1 (filename (initial_result p s)))"
    using assms(3) by blast
  have a: "\<exists>aps. archive_paths s1 (flatten p) (paths p) [] = Inr aps \<and>
               (\<forall>v\<in>set vs.
                  map_of aps (expanduser s (check_type_path ev s v)) =
                    Some (archive_name (flatten p) (expanduser s (check_type_path ev s v)))) \<and>
               (\<forall>m r st. run_module p s \<noteq> (fail_json (''path does not exist: '' @ m) r, st))"
    if all: "\<forall>v\<in>set vs. os_path_exists s1 (check_type_path ev s v)"
  proof -
    from all have "\<forall>x\<in>set (paths p). os_path_exists s1 x" by (simp add: assms(1))
    from archive_paths_succeeds [OF this, of "flatten p" "[]"] obtain aps where
      aps: "archive_paths s1 (flatten p) (paths p) [] = Inr aps" by blast
    have names: "map_of aps (expanduser s (check_type_path ev s v)) =
        Some (archive_name (flatten p) (expanduser s (check_type_path ev s v)))"
      if "v \<in> set vs" for v
      using archive_paths_entries(3) [OF aps, of "expanduser s (check_type_path ev s v)"] that
      by (simp add: ex assms(1))
    have "run_module p s \<noteq> (fail_json (''path does not exist: '' @ m) r, st)" for m r st
    proof (cases p s rule: run_module_cases)
      case (chdir_failed e)
      with assms(2) show ?thesis by simp
    next
      case (noop s1')
      then show ?thesis by simp
    next
      case (path_missing s1' msg)
      with assms(2) aps show ?thesis by simp
    next
      case (bad_level s1' aps' msg)
      from resolve_compress_level_message [OF bad_level(4)] bad_level(5)
      show ?thesis by auto
    next
      case (crashed s1' aps' lvl e s')
      then show ?thesis by simp
    next
      case (committed s1' aps' lvl s')
      then show ?thesis by simp
    qed
    with aps names show ?thesis by blast
  qed
  have b: "\<exists>y\<in>set vs. \<not> os_path_exists s1 (check_type_path ev s y) \<and>
               run_module p s =
                 (fail_json (''path does not exist: '' @ check_type_path ev s y)
                    (initial_result p s), s1)"
    if "\<exists>v\<in>set vs. \<not> os_path_exists s1 (check_type_path ev s v)"
  proof -
    from that obtain x where x: "x \<in> set (paths p)" "\<not> os_path_exists s1 x"
      by (auto simp: assms(1))
    from archive_paths_first_missing [OF x, of "flatten p" "[]"] obtain ys y zs where
      m: "paths p = ys @ y # zs" "\<not> os_path_exists s1 y"
         "archive_paths s1 (flatten p) (paths p) [] = Inl (''path does not exist: '' @ y)"
      by blast
    from m(1) have "y \<in> set (paths p)" by simp
    then obtain v where v: "v \<in> set vs" "y = check_type_path ev s v"
      by (auto simp: assms(1))
    have "run_module p s = (fail_json (''path does not exist: '' @ y) (initial_result p s), s1)"
      using guard by (auto simp: run build_archive_def initial_result_fields m(3))
    with v m(2) show ?thesis by blast
  qed
  have c: "expanduser s (check_type_path ev s v) = check_type_path ev s v"
    if "\<forall>h. user_home s = Some h \<longrightarrow> take 1 h \<noteq> ''~''"
      "\<forall>n h. pw_dir s n = Some h \<longrightarrow> take 1 h \<noteq> ''~''" for v
    unfolding check_type_path_def using that by (rule expanduser_idem)
  from a b c show ?thesis by (simp add: check_type_path_def)
qed

theorem paths_expanded_before_existence_check_witness:
  "map (check_type_path id example_os) [''~/f'', ''a.txt''] = [''/home/u/f'', ''a.txt''] \<and>
   os_path_exists example_os ''/home/u/f'' \<and>
   os_path_exists example_os ''a.txt'' \<and>
   \<not> os_path_exists example_os ''new.zip'' \<and>
   run_module
     \<lparr>paths = map (check_type_path id example_os) [''~/f'', ''a.txt''], filename = ''new.zip'',
      chdir = None, compress_level = PyStr ''default'', flatten = False, force = False\<rparr>
     example_os =
   (exit_json
     \<lparr>paths = [''/home/u/f'', ''a.txt''], filename = ''new.zip'', chdir = None,
      compress_level = PyStr ''default'', flatten = False, force = False, changed = True\<rparr>,
    example_os\<lparr>fs := (fs example_os)([''w'', ''new.zip''] \<mapsto>
      File (Archive (- 1)
        [(''home/u/f'', Some (Bytes ''hello'')), (''a.txt'', Some (Bytes ''A''))]))\<rparr>) \<and>
   map (check_type_path id example_os) [''~/nope''] = [''/home/u/nope''] \<and>
   \<not> os_path_exists example_os ''/home/u/nope'' \<and>
   run_module
     \<lparr>paths = map (check_type_path id example_os) [''~/nope''], filename = ''new.zip'',
      chdir = None, compress_level = PyStr ''default'', flatten = False, force = False\<rparr>
     example_os =
   (fail_json ''path does not exist: /home/u/nope''
     \<lparr>paths = [''/home/u/nope''], filename = ''new.zip'', chdir = None,
      compress_level = PyStr ''default'', flatten = False, force = False, changed = False\<rparr>,
    example_os)"
proof -
  let ?p = "\<lparr>paths = map (check_type_path id example_os) [''~/f'', ''a.txt''], filename = ''new.zip'',
      chdir = None, compress_level = PyStr ''default'', flatten = False, force = False\<rparr>"
  let ?q = "\<lparr>paths = map (check_type_path id example_os) [''~/nope''], filename = ''new.zip'',
      chdir = None, compress_level = PyStr ''default'', flatten = False, force = False\<rparr>"
  have dp: "map (check_type_path id example_os) [''~/f'', ''a.txt''] = [''/home/u/f'', ''a.txt'']"
    by (simp add: check_type_path_def os_defs)
  have dq: "map (check_type_path id example_os) [''~/nope''] = [''/home/u/nope'']"
    by (simp add: check_type_path_def os_defs)
  have pp: "paths ?p = map (check_type_path id example_os) [''~/f'', ''a.txt'']" by simp
  have pq: "paths ?q = map (check_type_path id example_os) [''~/nope'']" by simp
  have cp: "enter_chdir (chdir (initial_result ?p example_os)) example_os = Inr example_os"
    by (simp add: initial_result_def enter_chdir_def)
  have cq: "enter_chdir (chdir (initial_result ?q example_os)) example_os = Inr example_os"
    by (simp add: initial_result_def enter_chdir_def)
  have n: "\<not> os_path_exists example_os ''new.zip''" by (simp add: os_defs)
  have gp: "force ?p \<or> \<not> os_path_exists example_os (filename (initial_result ?p example_os))"
    using n by (simp add: initial_result_def) (simp add: os_defs)
  have gq: "force ?q \<or> \<not> os_path_exists example_os (filename (initial_result ?q example_os))"
    using n by (simp add: initial_result_def) (simp add: os_defs)
  have e: "os_path_exists example_os ''/home/u/f''" "os_path_exists example_os ''a.txt''"
    "\<not> os_path_exists example_os ''/home/u/nope''"
    by (simp_all add: os_defs)
  have rp: "run_module ?p example_os =
   (exit_json
     \<lparr>paths = [''/home/u/f'', ''a.txt''], filename = ''new.zip'', chdir = None,
      compress_level = PyStr ''default'', flatten = False, force = False, changed = True\<rparr>,
    example_os\<lparr>fs := (fs example_os)([''w'', ''new.zip''] \<mapsto>
      File (Archive (- 1)
        [(''home/u/f'', Some (Bytes ''hello'')), (''a.txt'', Some (Bytes ''A''))]))\<rparr>)"
    unfolding dp by (simp add: os_defs module_defs)
  have rq: "run_module ?q example_os =
   (fail_json ''path does not exist: /home/u/nope''
     \<lparr>paths = [''/home/u/nope''], filename = ''new.zip'', chdir = None,
      compress_level = PyStr ''default'', flatten = False, force = False, changed = False\<rparr>,
    example_os)"
    unfolding dq by (simp add: os_defs module_defs)
  from paths_expanded_before_existence_check [OF pp cp gp]
    paths_expanded_before_existence_check [OF pq cq gq] dp dq e n rp rq
  show ?thesis by simp
qed

subsection \<open>C4: an existing destination without force\<close>

lemma second_run:
  assumes nf: "\<not> force p" and run: "run_module p s = (out, s')"
  shows "run_module p (s'\<lparr>cwd := cwd s\<rparr>) = (exit_json (initial_result p s), s') \<or>
         (run_module p (s'\<lparr>cwd := cwd s\<rparr>) = (out, s') \<and> (\<forall>r. out \<noteq> exit_json r))"
proof (cases p s rule: run_module_cases)
  case (chdir_failed ex)
  with run show ?thesis by auto
next
  case (noop s1)
  with run enter_chdir_back [OF noop(1)] show ?thesis by auto
next
  case (path_missing s1 msg)
  with run enter_chdir_back [OF path_missing(1)] show ?thesis by auto
next
  case (bad_level s1 aps msg)
  with run enter_chdir_back [OF bad_level(1)] show ?thesis by auto
next
  case (crashed s1 aps lvl ex s'')
  from crashed(6) run have o: "out = uncaught ex" and s'': "s'' = s'" by simp_all
  show ?thesis
  proof (cases "open_w s1 (filename (initial_result p s))")
    case (Inl ex')
    from zip_create_failed_open [OF Inl, of lvl aps] crashed(5) have "s'' = s1" by simp
    with run o s'' enter_chdir_back [OF crashed(1)] show ?thesis by auto
  next
    case (Inr t)
    from zip_create_state [OF Inr, of lvl aps] crashed(5) obtain c where
      "s'' = s1\<lparr>fs := (fs s1)(t \<mapsto> File c)\<rparr>" by auto
    with s'' have "s' = s1\<lparr>fs := (fs s1)(t \<mapsto> File c)\<rparr>" by simp
    from second_run_after_write [OF crashed(1) Inr this nf] show ?thesis by simp
  qed
next
  case (committed s1 aps lvl s'')
  from committed(6) run have s'': "s'' = s'" by simp
  from zip_create_members [OF committed(5)] obtain t where
    t: "open_w s1 (filename (initial_result p s)) = Inr t" by blast
  from zip_create_state [OF t, of lvl aps] committed(5) obtain c where
    "s'' = s1\<lparr>fs := (fs s1)(t \<mapsto> File c)\<rparr>" by auto
  with s'' have "s' = s1\<lparr>fs := (fs s1)(t \<mapsto> File c)\<rparr>" by simp
  from second_run_after_write [OF committed(1) t this nf] show ?thesis by simp
qed

text \<open>
  C4. Let \<^verbatim>\<open>force\<close> be false. Once the change of directory is behind, a run whose
  destination exists leaves through \<^verbatim>\<open>exit_json\<close> with \<^verbatim>\<open>changed\<close> false and the
  filesystem as it was, so the destination is neither opened nor written. Hence, after
  a run that left through \<^verbatim>\<open>exit_json\<close> (whether it wrote the archive or not), a
  second run of a process started in the same directory with the same parameters leaves
  through \<^verbatim>\<open>exit_json\<close> with \<^verbatim>\<open>changed\<close> false and changes nothing; and after any
  first run at all the second one changes no file and never reports a change.
\<close>

theorem existing_destination_is_noop:
  assumes "\<not> force p"
  shows "(\<forall>s1. enter_chdir (chdir (initial_result p s)) s = Inr s1 \<and>
               os_path_exists s1 (filename (initial_result p s)) \<longrightarrow>
            run_module p s = (exit_json (initial_result p s), s1) \<and>
            \<not> changed (initial_result p s) \<and> fs s1 = fs s) \<and>
         (\<forall>r s'. run_module p s = (exit_json r, s') \<longrightarrow>
            run_module p (s'\<lparr>cwd := cwd s\<rparr>) = (exit_json (initial_result p s), s')) \<and>
         (\<forall>out s'. run_module p s = (out, s') \<longrightarrow>
            fs (snd (run_module p (s'\<lparr>cwd := cwd s\<rparr>))) = fs s' \<and>
            (\<forall>r. fst (run_module p (s'\<lparr>cwd := cwd s\<rparr>)) = exit_json r \<longrightarrow> \<not> changed r))"
proof -
  have a: "run_module p s = (exit_json (initial_result p s), s1) \<and>
            \<not> changed (initial_result p s) \<and> fs s1 = fs s"
    if "enter_chdir (chdir (initial_result p s)) s = Inr s1"
      "os_path_exists s1 (filename (initial_result p s))" for s1
    using run_module_noop [OF that(1) assms that(2)] enter_chdir_state [OF that(1)]
    by (simp add: initial_result_fields)
  have b: "run_module p (s'\<lparr>cwd := cwd s\<rparr>) = (exit_json (initial_result p s), s')"
    if "run_module p s = (exit_json r, s')" for r s'
    using second_run [OF assms that] by auto
  have c: "fs (snd (run_module p (s'\<lparr>cwd := cwd s\<rparr>))) = fs s' \<and>
            (\<forall>r. fst (run_module p (s'\<lparr>cwd := cwd s\<rparr>)) = exit_json r \<longrightarrow> \<not> changed r)"
    if "run_module p s = (out, s')" for out s'
    using second_run [OF assms that] by (auto simp: initial_result_fields)
  from a b c show ?thesis by blast
qed

theorem existing_destination_is_noop_witness:
  "os_path_exists example_os ''out.zip'' \<and>
   run_module
     \<lparr>paths = [''a.txt''], filename = ''out.zip'', chdir = None,
      compress_level = PyStr ''best'', flatten = False, force = False\<rparr> example_os =
   (exit_json
     \<lparr>paths = [''a.txt''], filename = ''out.zip'', chdir = None,
      compress_level = PyStr ''best'', flatten = False, force = False, changed = False\<rparr>,
    example_os) \<and>
   run_module
     \<lparr>paths = [''b.txt''], filename = ''new.zip'', chdir = Some ''sub'',
      compress_level = PyStr ''best'', flatten = False, force = False\<rparr> example_os =
   (exit_json
     \<lparr>paths = [''b.txt''], filename = ''new.zip'', chdir = Some ''sub'',
      compress_level = PyStr ''best'', flatten = False, force = False, changed = True\<rparr>,
    example_os\<lparr>cwd := [''w'', ''sub''],
      fs := (fs example_os)([''w'', ''sub'', ''new.zip''] \<mapsto>
        File (Archive 9 [(''b.txt'', Some (Bytes ''B''))]))\<rparr>) \<and>
   run_module
     \<lparr>paths = [''b.txt''], filename = ''new.zip'', chdir = Some ''sub'',
      compress_level = PyStr ''best'', flatten = False, force = False\<rparr>
     (example_os\<lparr>cwd := [''w'', ''sub''],
        fs := (fs example_os)([''w'', ''sub'', ''new.zip''] \<mapsto>
          File (Archive 9 [(''b.txt'', Some (Bytes ''B''))]))\<rparr>\<lparr>cwd := cwd example_os\<rparr>) =
   (exit_json
     \<lparr>paths = [''b.txt''], filename = ''new.zip'', chdir = Some ''sub'',
      compress_level = PyStr ''best'', flatten = False, force = False, changed = False\<rparr>,
    example_os\<lparr>cwd := [''w'', ''sub''],
      fs := (fs example_os)([''w'', ''sub'', ''new.zip''] \<mapsto>
        File (Archive 9 [(''b.txt'', Some (Bytes ''B''))]))\<rparr>)"
proof -
  let ?p = "\<lparr>paths = [''a.txt''], filename = ''out.zip'', chdir = None,
      compress_level = PyStr ''best'', flatten = False, force = False\<rparr>"
  let ?q = "\<lparr>paths = [''b.txt''], filename = ''new.zip'', chdir = Some ''sub'',
      compress_level = PyStr ''best'', flatten = False, force = False\<rparr>"
  let ?s' = "example_os\<lparr>cwd := [''w'', ''sub''],
      fs := (fs example_os)([''w'', ''sub'', ''new.zip''] \<mapsto>
        File (Archive 9 [(''b.txt'', Some (Bytes ''B''))]))\<rparr>"
  have fp: "\<not> force ?p" and fq: "\<not> force ?q" by simp_all
  have o: "os_path_exists example_os ''out.zip''" by (simp add: os_defs)
  have ip: "initial_result ?p example_os =
    \<lparr>paths = [''a.txt''], filename = ''out.zip'', chdir = None,
      compress_level = PyStr ''best'', flatten = False, force = False, changed = False\<rparr>"
    by (simp add: os_defs module_defs)
  have iq: "initial_result ?q example_os =
    \<lparr>paths = [''b.txt''], filename = ''new.zip'', chdir = Some ''sub'',
      compress_level = PyStr ''best'', flatten = False, force = False, changed = False\<rparr>"
    by (simp add: os_defs module_defs)
  have cp: "enter_chdir (chdir (initial_result ?p example_os)) example_os = Inr example_os"
    by (simp add: ip enter_chdir_def)
  have dp: "os_path_exists example_os (filename (initial_result ?p example_os))"
    using o by (simp add: ip)
  have rq: "run_module ?q example_os =
    (exit_json
     \<lparr>paths = [''b.txt''], filename = ''new.zip'', chdir = Some ''sub'',
      compress_level = PyStr ''best'', flatten = False, force = False, changed = True\<rparr>, ?s')"
    by (simp add: os_defs module_defs)
  from existing_destination_is_noop [OF fp, of example_os]
  have "run_module ?p example_os = (exit_json (initial_result ?p example_os), example_os)"
    using cp dp by blast
  moreover from existing_destination_is_noop [OF fq, of example_os]
  have "run_module ?q (?s'\<lparr>cwd := cwd example_os\<rparr>) = (exit_json (initial_result ?q example_os), ?s')"
    using rq by blast
  ultimately show ?thesis using o rq ip iq by simp
qed

subsection \<open>C5: entry names with flatten\<close>

text \<open>
  C5. With \<^verbatim>\<open>flatten\<close> set, the entry name computed for every source path is the
  base name of the expanded path, that is, what follows its last separator, and so it
  contains no separator.
\<close>

theorem flatten_entry_is_basename:
  assumes "archive_paths s True ps [] = Inr aps" and "x \<in> set ps"
  shows "map_of aps (expanduser s x) = Some (basename (expanduser s x)) \<and>
         sep \<notin> set (basename (expanduser s x)) \<and>
         (\<exists>d. expanduser s x = d @ basename (expanduser s x) \<and> (d = [] \<or> last d = sep)) \<and>
         (\<forall>(k, v) \<in> set aps. v = basename k \<and> sep \<notin> set v)"
proof -
  have "map_of aps (expanduser s x) = Some (basename (expanduser s x))"
    using archive_paths_entries(3) [OF assms(1), of "expanduser s x"] assms(2)
    by (simp add: archive_name_def)
  moreover have "\<forall>(k, v) \<in> set aps. v = basename k \<and> sep \<notin> set v"
    using archive_paths_entries(4) [OF assms(1)] basename_no_sep
    by (auto simp: archive_name_def)
  ultimately show ?thesis
    using basename_no_sep [of "expanduser s x"] basename_split [of "expanduser s x"] by blast
qed

theorem flatten_entry_is_basename_witness:
  "archive_paths example_os True [''a.txt'', ''sub/b.txt'', ''/home/u/f''] [] =
     Inr [(''a.txt'', ''a.txt''), (''sub/b.txt'', ''b.txt''), (''/home/u/f'', ''f'')] \<and>
   ''sub/b.txt'' \<in> set [''a.txt'', ''sub/b.txt'', ''/home/u/f''] \<and>
   map_of [(''a.txt'', ''a.txt''), (''sub/b.txt'', ''b.txt''), (''/home/u/f'', ''f'')]
     (expanduser example_os ''sub/b.txt'') = Some ''b.txt'' \<and>
   basename (expanduser example_os ''sub/b.txt'') = ''b.txt'' \<and>
   sep \<notin> set (basename (expanduser example_os ''sub/b.txt''))"
proof -
  have run: "archive_paths example_os True [''a.txt'', ''sub/b.txt'', ''/home/u/f''] [] =
     Inr [(''a.txt'', ''a.txt''), (''sub/b.txt'', ''b.txt''), (''/home/u/f'', ''f'')]"
    by (simp add: os_defs module_defs)
  have mem: "''sub/b.txt'' \<in> set [''a.txt'', ''sub/b.txt'', ''/home/u/f'']" by simp
  have b: "basename (expanduser example_os ''sub/b.txt'') = ''b.txt''"
    by (simp add: os_defs)
  from flatten_entry_is_basename [OF run mem] run mem b show ?thesis by simp
qed

subsection \<open>C6: entry names without flatten\<close>

text \<open>
  C6. Without \<^verbatim>\<open>flatten\<close>, the entry name computed for every source path is the
  expanded path without its leading separators: the expanded path is that name behind
  some number of separators, and the name starts with none. Two source paths get the
  same entry name exactly when their expanded paths are equal after the stripping; so
  two distinct paths that stay distinct under the stripping never share an entry name.
\<close>

theorem hierarchy_entry_is_stripped_path:
  assumes "archive_paths s False ps [] = Inr aps" and "x \<in> set ps" and "y \<in> set ps"
  shows "map_of aps (expanduser s x) = Some (lstrip_sep (expanduser s x)) \<and>
         (\<exists>n. expanduser s x = replicate n sep @ lstrip_sep (expanduser s x)) \<and>
         (lstrip_sep (expanduser s x) = [] \<or> hd (lstrip_sep (expanduser s x)) \<noteq> sep) \<and>
         (map_of aps (expanduser s x) = map_of aps (expanduser s y) \<longleftrightarrow>
            lstrip_sep (expanduser s x) = lstrip_sep (expanduser s y)) \<and>
         (expanduser s x \<noteq> expanduser s y \<and>
            lstrip_sep (expanduser s x) \<noteq> lstrip_sep (expanduser s y) \<longrightarrow>
            map_of aps (expanduser s x) \<noteq> map_of aps (expanduser s y))"
proof -
  have name: "map_of aps (expanduser s z) = Some (lstrip_sep (expanduser s z))" if "z \<in> set ps" for z
    using archive_paths_entries(3) [OF assms(1), of "expanduser s z"] that
    by (simp add: archive_name_def)
  show ?thesis
    using name [OF assms(2)] name [OF assms(3)]
      lstrip_sep_split [of "expanduser s x"] lstrip_sep_head [of "expanduser s x"]
    by simp
qed

theorem hierarchy_entry_is_stripped_path_witness:
  "archive_paths example_os False [''a.txt'', ''/home/u/f'', ''//home/u/f''] [] =
     Inr [(''a.txt'', ''a.txt''), (''/home/u/f'', ''home/u/f''), (''//home/u/f'', ''home/u/f'')] \<and>
   map_of [(''a.txt'', ''a.txt''), (''/home/u/f'', ''home/u/f''), (''//home/u/f'', ''home/u/f'')]
     (expanduser example_os ''/home/u/f'') = Some ''home/u/f'' \<and>
   lstrip_sep (expanduser example_os ''/home/u/f'') = ''home/u/f'' \<and>
   expanduser example_os ''/home/u/f'' \<noteq> expanduser example_os ''a.txt'' \<and>
   lstrip_sep (expanduser example_os ''/home/u/f'') \<noteq> lstrip_sep (expanduser example_os ''a.txt'') \<and>
   map_of [(''a.txt'', ''a.txt''), (''/home/u/f'', ''home/u/f''), (''//home/u/f'', ''home/u/f'')]
     (expanduser example_os ''/home/u/f'') \<noteq>
   map_of [(''a.txt'', ''a.txt''), (''/home/u/f'', ''home/u/f''), (''//home/u/f'', ''home/u/f'')]
     (expanduser example_os ''a.txt'')"
proof -
  have run: "archive_paths example_os False [''a.txt'', ''/home/u/f'', ''//home/u/f''] [] =
     Inr [(''a.txt'', ''a.txt''), (''/home/u/f'', ''home/u/f''), (''//home/u/f'', ''home/u/f'')]"
    by (simp add: os_defs module_defs)
  have x: "''/home/u/f'' \<in> set [''a.txt'', ''/home/u/f'', ''//home/u/f'']" by simp
  have y: "''a.txt'' \<in> set [''a.txt'', ''/home/u/f'', ''//home/u/f'']" by simp
  have e: "expanduser example_os ''/home/u/f'' = ''/home/u/f''"
    "expanduser example_os ''a.txt'' = ''a.txt''"
    by (simp_all add: os_defs)
  have l: "lstrip_sep ''/home/u/f'' = ''home/u/f''" "lstrip_sep ''a.txt'' = ''a.txt''"
    by (simp_all add: os_defs)
  from hierarchy_entry_is_stripped_path [OF run x y] run show ?thesis
    by (simp add: e l)
qed

subsection \<open>C7: the change of directory\<close>

lemma expanduser_nonempty: "d \<noteq> [] \<Longrightarrow> expanduser s d \<noteq> []"
  by (cases d) (auto simp: expanduser_def Let_def split: option.splits)

lemma initial_result_chdir:
  "chdir p = Some d \<Longrightarrow> d \<noteq> [] \<Longrightarrow> chdir (initial_result p s) = Some (expanduser s d)"
  by (simp add: initial_result_def)

lemma resolve_relative:
  "x \<noteq> [] \<Longrightarrow> hd x \<noteq> sep \<Longrightarrow> resolve s x = walk (fs s) (cwd s) (split_sep x)"
  by (cases x) (simp_all add: resolve_def start_dir_def)

text \<open>
  C7. When \<^verbatim>\<open>chdir\<close> is given (and not empty) and \<^verbatim>\<open>os.chdir\<close> raises, the module
  fails with the text of that exception and leaves the whole state as it was. When
  \<^verbatim>\<open>os.chdir\<close> succeeds, everything else runs in the state it returns: the
  filesystem is the same, the working directory is the location \<^verbatim>\<open>chdir\<close> resolved
  to, and a relative path exists exactly when the walk from that location succeeds.
\<close>

theorem chdir_comes_first:
  assumes "chdir p = Some d" and "d \<noteq> []"
  shows "(\<forall>ex. os_chdir s (expanduser s d) = Inl ex \<longrightarrow>
            run_module p s = (fail_json (str_exn ex) (initial_result p s), s)) \<and>
         (\<forall>s1. os_chdir s (expanduser s d) = Inr s1 \<longrightarrow>
            run_module p s = build_archive (initial_result p s) s1 \<and>
            fs s1 = fs s \<and>
            resolve s (expanduser s d) = Inr (cwd s1) \<and>
            (\<forall>x. x \<noteq> [] \<and> hd x \<noteq> sep \<longrightarrow>
               os_path_exists s1 x = (\<exists>l. walk (fs s) (cwd s1) (split_sep x) = Inr l)))"
proof -
  have c: "chdir (initial_result p s) = Some (expanduser s d)"
    using assms by (rule initial_result_chdir)
  have ne: "expanduser s d \<noteq> []" using assms(2) by (rule expanduser_nonempty)
  have e: "enter_chdir (chdir (initial_result p s)) s = os_chdir s (expanduser s d)"
    by (simp add: c enter_chdir_def ne)
  have fail: "run_module p s = (fail_json (str_exn ex) (initial_result p s), s)"
    if "os_chdir s (expanduser s d) = Inl ex" for ex
    using that by (simp add: run_module_def e)
  have ok: "run_module p s = build_archive (initial_result p s) s1 \<and>
            fs s1 = fs s \<and>
            resolve s (expanduser s d) = Inr (cwd s1) \<and>
            (\<forall>x. x \<noteq> [] \<and> hd x \<noteq> sep \<longrightarrow>
               os_path_exists s1 x = (\<exists>l. walk (fs s) (cwd s1) (split_sep x) = Inr l))"
    if h: "os_chdir s (expanduser s d) = Inr s1" for s1
  proof -
    from os_chdir_state [OF h] obtain l where
      l: "resolve s (expanduser s d) = Inr l" "s1 = s\<lparr>cwd := l\<rparr>" by blast
    have "run_module p s = build_archive (initial_result p s) s1"
      using h by (simp add: run_module_def e)
    moreover have "os_path_exists s1 x = (\<exists>l'. walk (fs s) (cwd s1) (split_sep x) = Inr l')"
      if "x \<noteq> []" "hd x \<noteq> sep" for x
      using resolve_relative [OF that, of s1] l(2)
      by (cases "walk (fs s) l (split_sep x)") (simp_all add: os_path_exists_def)
    ultimately show ?thesis using l by simp
  qed
  from fail ok show ?thesis by blast
qed

theorem chdir_comes_first_witness:
  "os_chdir example_os (expanduser example_os ''nowhere'') = Inl (OSError ENOENT ''nowhere'') \<and>
   run_module
     \<lparr>paths = [''b.txt''], filename = ''new.zip'', chdir = Some ''nowhere'',
      compress_level = PyStr ''default'', flatten = False, force = False\<rparr> example_os =
   (fail_json (str_exn (OSError ENOENT ''nowhere''))
     \<lparr>paths = [''b.txt''], filename = ''new.zip'', chdir = Some ''nowhere'',
      compress_level = PyStr ''default'', flatten = False, force = False, changed = False\<rparr>,
    example_os) \<and>
   os_chdir example_os (expanduser example_os ''sub'') = Inr (example_os\<lparr>cwd := [''w'', ''sub'']\<rparr>) \<and>
   run_module
     \<lparr>paths = [''b.txt''], filename = ''new.zip'', chdir = Some ''sub'',
      compress_level = PyStr ''default'', flatten = False, force = False\<rparr> example_os =
   (exit_json
     \<lparr>paths = [''b.txt''], filename = ''new.zip'', chdir = Some ''sub'',
      compress_level = PyStr ''default'', flatten = False, force = False, changed = True\<rparr>,
    example_os\<lparr>cwd := [''w'', ''sub''],
      fs := (fs example_os)([''w'', ''sub'', ''new.zip''] \<mapsto>
        File (Archive (- 1) [(''b.txt'', Some (Bytes ''B''))]))\<rparr>)"
proof -
  let ?p1 = "\<lparr>paths = [''b.txt''], filename = ''new.zip'', chdir = Some ''nowhere'',
      compress_level = PyStr ''default'', flatten = False, force = False\<rparr>"
  let ?p2 = "\<lparr>paths = [''b.txt''], filename = ''new.zip'', chdir = Some ''sub'',
      compress_level = PyStr ''default'', flatten = False, force = False\<rparr>"
  have c1: "chdir ?p1 = Some ''nowhere''" "''nowhere'' \<noteq> []" by simp_all
  have c2: "chdir ?p2 = Some ''sub''" "''sub'' \<noteq> []" by simp_all
  have f: "os_chdir example_os (expanduser example_os ''nowhere'') = Inl (OSError ENOENT ''nowhere'')"
    by (simp add: os_defs)
  have g: "os_chdir example_os (expanduser example_os ''sub'') = Inr (example_os\<lparr>cwd := [''w'', ''sub'']\<rparr>)"
    by (simp add: os_defs)
  have b: "build_archive (initial_result ?p2 example_os) (example_os\<lparr>cwd := [''w'', ''sub'']\<rparr>) =
    (exit_json
     \<lparr>paths = [''b.txt''], filename = ''new.zip'', chdir = Some ''sub'',
      compress_level = PyStr ''default'', flatten = False, force = False, changed = True\<rparr>,
    example_os\<lparr>cwd := [''w'', ''sub''],
      fs := (fs example_os)([''w'', ''sub'', ''new.zip''] \<mapsto>
        File (Archive (- 1) [(''b.txt'', Some (Bytes ''B''))]))\<rparr>)"
    by (simp add: os_defs module_defs)
  have i: "initial_result ?p1 example_os = \<lparr>paths = [''b.txt''], filename = ''new.zip'', chdir = Some ''nowhere'',
      compress_level = PyStr ''default'', flatten = False, force = False, changed = False\<rparr>"
    by (simp add: os_defs module_defs)
  from chdir_comes_first [OF c1, of example_os] chdir_comes_first [OF c2, of example_os] f g b i
  show ?thesis by simp
qed

subsection \<open>C8: one entry for each path\<close>

text \<open>
  C8. When the module reports a change, the keys of the mapping it built are pairwise
  distinct and are exactly the expanded elements of \<^verbatim>\<open>paths\<close>; the archive it
  wrote holds one member for each key, in the order of the mapping, so that the number
  of members is the number of distinct expanded paths: a path listed twice is written
  once.
\<close>

theorem each_path_written_once:
  assumes "run_module p s = (exit_json r, s')" and "changed r"
  shows "\<exists>s1 aps lvl t ms.
           enter_chdir (chdir (initial_result p s)) s = Inr s1 \<and>
           archive_paths s1 (flatten p) (paths p) [] = Inr aps \<and>
           distinct (map fst aps) \<and>
           set (map fst aps) = expanduser s ` set (paths p) \<and>
           zip_create s1 (filename (initial_result p s)) lvl aps = (None, s') \<and>
           open_w s1 (filename (initial_result p s)) = Inr t \<and>
           fs s' t = Some (File (Archive lvl ms)) \<and>
           map fst ms = map snd aps \<and>
           length ms = card (expanduser s ` set (paths p))"
proof (cases p s rule: run_module_cases)
  case (committed s1 aps lvl s'')
  with assms(1) have s'': "s'' = s'" by simp
  from enter_chdir_state [OF committed(1)] have "expanduser s1 q = expanduser s q" for q
    by (intro expanduser_cong) simp_all
  then have ex: "expanduser s1 = expanduser s" by (rule ext)
  have d: "distinct (map fst aps)" and k: "set (map fst aps) = expanduser s ` set (paths p)"
    using archive_paths_entries(1,2) [OF committed(3)] by (simp_all add: ex)
  from zip_create_members [OF committed(5)] obtain t ms where
    m: "open_w s1 (filename (initial_result p s)) = Inr t"
       "fs s'' t = Some (File (Archive lvl ms))" "map fst ms = map snd aps" by blast
  have "length ms = length (map fst aps)" using m(3) by (metis length_map)
  also have "\<dots> = card (set (map fst aps))" by (rule distinct_card [OF d, symmetric])
  also have "\<dots> = card (expanduser s ` set (paths p))" by (simp only: k)
  finally have "length ms = card (expanduser s ` set (paths p))" .
  with committed d k m s'' show ?thesis by blast
qed (use assms in \<open>auto simp: initial_result_fields\<close>)

theorem each_path_written_once_witness:
  "run_module
     \<lparr>paths = [''a.txt'', ''sub/b.txt'', ''a.txt''], filename = ''new.zip'', chdir = None,
      compress_level = PyStr ''fast'', flatten = False, force = False\<rparr> example_os =
   (exit_json
     \<lparr>paths = [''a.txt'', ''sub/b.txt'', ''a.txt''], filename = ''new.zip'', chdir = None,
      compress_level = PyStr ''fast'', flatten = False, force = False, changed = True\<rparr>,
    example_os\<lparr>fs := (fs example_os)([''w'', ''new.zip''] \<mapsto>
      File (Archive 1 [(''a.txt'', Some (Bytes ''A'')), (''sub/b.txt'', Some (Bytes ''B''))]))\<rparr>)"
proof -
  let ?p = "\<lparr>paths = [''a.txt'', ''sub/b.txt'', ''a.txt''], filename = ''new.zip'', chdir = None,
      compress_level = PyStr ''fast'', flatten = False, force = False\<rparr>"
  let ?r = "\<lparr>paths = [''a.txt'', ''sub/b.txt'', ''a.txt''], filename = ''new.zip'', chdir = None,
      compress_level = PyStr ''fast'', flatten = False, force = False, changed = True\<rparr>"
  let ?s' = "example_os\<lparr>fs := (fs example_os)([''w'', ''new.zip''] \<mapsto>
      File (Archive 1 [(''a.txt'', Some (Bytes ''A'')), (''sub/b.txt'', Some (Bytes ''B''))]))\<rparr>"
  have run: "run_module ?p example_os = (exit_json ?r, ?s')"
    by (simp add: os_defs module_defs)
  have ch: "changed ?r" by simp
  from each_path_written_once [OF run ch] run show ?thesis by simp
qed

subsection \<open>C9: what the exits report\<close>

lemma fail_json_reports_parameters:
  assumes "run_module p s = (fail_json msg r, s')"
  shows "r = initial_result p s \<and> \<not> changed r \<and> fs s' = fs s"
  using assms
  by (cases p s rule: run_module_cases)
    (auto simp: initial_result_fields dest: enter_chdir_state)

lemma exit_json_reports_parameters:
  assumes "run_module p s = (exit_json r, s')"
  shows "r = (initial_result p s)\<lparr>changed := changed r\<rparr>"
  using assms by (cases p s rule: run_module_cases) auto

lemma changed_iff_archive_written:
  assumes "run_module p s = (exit_json r, s')"
  shows "changed r \<longleftrightarrow>
     (\<exists>s1 aps lvl.
        enter_chdir (chdir (initial_result p s)) s = Inr s1 \<and>
        (force p \<or> \<not> os_path_exists s1 (filename (initial_result p s))) \<and>
        archive_paths s1 (flatten p) (paths p) [] = Inr aps \<and>
        resolve_compress_level (compress_level p) = Inr lvl \<and>
        zip_create s1 (filename (initial_result p s)) lvl aps = (None, s'))"
proof (cases p s rule: run_module_cases)
  case (noop s1)
  with assms show ?thesis by (auto simp: initial_result_fields)
next
  case (committed s1 aps lvl s'')
  with assms show ?thesis by auto
qed (use assms in auto)

text \<open>
  C9 at a destination inside a directory that does not exist: \<^verbatim>\<open>ZipFile(...)\<close>
  raises, nothing catches the exception, and the run ends without any result, so
  without \<^verbatim>\<open>changed\<close>, message or parameters.
\<close>

theorem archive_error_is_uncaught:
  "run_module
     \<lparr>paths = [''a.txt''], filename = ''nodir/out.zip'', chdir = None,
      compress_level = PyStr ''default'', flatten = False, force = False\<rparr> example_os =
   (uncaught (OSError ENOENT ''nodir/out.zip''), example_os)"
  by (simp add: os_defs module_defs)

subsection \<open>C10: the no-op exit comes before the checks\<close>

text \<open>
  C10. Once the change of directory is behind (none was asked for, or it succeeded), a
  run without \<^verbatim>\<open>force\<close> whose destination exists leaves through
  \<^verbatim>\<open>exit_json\<close> with \<^verbatim>\<open>changed\<close> false whatever \<^verbatim>\<open>paths\<close> and
  \<^verbatim>\<open>compress_level\<close> are: replacing them by any other values gives the same exit, so
  neither a missing path nor an unknown compression setting is ever looked at.
\<close>

theorem noop_before_path_and_level_checks:
  assumes "enter_chdir (chdir (initial_result p s)) s = Inr s1"
    and "\<not> force p"
    and "os_path_exists s1 (filename (initial_result p s))"
  shows "run_module p s = (exit_json (initial_result p s), s1) \<and>
         \<not> changed (initial_result p s) \<and>
         (\<forall>ps cl. run_module (p\<lparr>paths := ps, compress_level := cl\<rparr>) s =
            (exit_json ((initial_result p s)\<lparr>paths := ps, compress_level := cl\<rparr>), s1))"
proof -
  have i: "initial_result (p\<lparr>paths := ps, compress_level := cl\<rparr>) s =
      (initial_result p s)\<lparr>paths := ps, compress_level := cl\<rparr>" for ps cl
    by (simp add: initial_result_def)
  have "run_module (p\<lparr>paths := ps, compress_level := cl\<rparr>) s =
      (exit_json ((initial_result p s)\<lparr>paths := ps, compress_level := cl\<rparr>), s1)" for ps cl
    using run_module_noop [of "p\<lparr>paths := ps, compress_level := cl\<rparr>" s s1] assms
    by (simp add: i)
  moreover have "run_module p s = (exit_json (initial_result p s), s1)"
    using assms by (rule run_module_noop)
  ultimately show ?thesis by (simp add: initial_result_fields)
qed

theorem noop_before_path_and_level_checks_witness:
  "\<not> os_path_exists example_os ''missing.txt'' \<and>
   resolve_compress_level (PyStr ''banana'') =
     Inl ''incorrect value for 'compress_level' option: banana'' \<and>
   os_path_exists example_os ''out.zip'' \<and>
   run_module
     \<lparr>paths = [''missing.txt''], filename = ''out.zip'', chdir = None,
      compress_level = PyStr ''banana'', flatten = False, force = False\<rparr> example_os =
   (exit_json
     \<lparr>paths = [''missing.txt''], filename = ''out.zip'', chdir = None,
      compress_level = PyStr ''banana'', flatten = False, force = False, changed = False\<rparr>,
    example_os)"
proof -
  let ?p = "\<lparr>paths = [''missing.txt''], filename = ''out.zip'', chdir = None,
      compress_level = PyStr ''banana'', flatten = False, force = False\<rparr>"
  have i: "initial_result ?p example_os =
    \<lparr>paths = [''missing.txt''], filename = ''out.zip'', chdir = None,
      compress_level = PyStr ''banana'', flatten = False, force = False, changed = False\<rparr>"
    by (simp add: os_defs module_defs)
  have c: "enter_chdir (chdir (initial_result ?p example_os)) example_os = Inr example_os"
    by (simp add: i enter_chdir_def)
  have f: "\<not> force ?p" by simp
  have d: "os_path_exists example_os (filename (initial_result ?p example_os))"
    by (simp add: i) (simp add: os_defs)
  have m: "\<not> os_path_exists example_os ''missing.txt''" by (simp add: os_defs)
  have b: "resolve_compress_level (PyStr ''banana'') =
     Inl ''incorrect value for 'compress_level' option: banana''"
    by (simp add: module_defs)
  from noop_before_path_and_level_checks [OF c f d] i d m b show ?thesis by simp
qed

end
